theory Spec2Isabelle
  imports Main "HOL-Library.Sublist" "HOL-Library.AList"
begin

section \<open>JavaScript strings\<close>

text \<open>
  Strings are lists of characters. The string primitives of the runtime that the
  sources call are written out here: \<open>toLowerCase\<close> (on the ASCII letters, which is all
  that asset and archive names are compared on), \<open>includes\<close> (here \<open>includesStr\<close>), \<open>startsWith\<close>,
  \<open>endsWith\<close> and \<open>split\<close> on a set of separator characters.
\<close>

definition toLowerChar :: "char \<Rightarrow> char" where
  "toLowerChar c =
     (let n = (of_char c :: nat) in if 65 \<le> n \<and> n \<le> 90 then char_of (n + 32) else c)"

definition toLowerCase :: "string \<Rightarrow> string" where
  "toLowerCase s = map toLowerChar s"

definition startsWith :: "string \<Rightarrow> string \<Rightarrow> bool" where
  "startsWith s p = (take (length p) s = p)"

definition endsWith :: "string \<Rightarrow> string \<Rightarrow> bool" where
  "endsWith s p = (length p \<le> length s \<and> drop (length s - length p) s = p)"

fun includesStr :: "string \<Rightarrow> string \<Rightarrow> bool" where
  "includesStr [] p = (p = [])"
| "includesStr (c # cs) p = (startsWith (c # cs) p \<or> includesStr cs p)"

text \<open>\<open>s.split(/[-_]/)\<close> and \<open>s.split('/')\<close>: the pieces between separator characters;
  a string without separator is one piece, the empty string is one empty piece.\<close>

fun splitOn :: "(char \<Rightarrow> bool) \<Rightarrow> string \<Rightarrow> string list" where
  "splitOn sep [] = [[]]"
| "splitOn sep (c # cs) =
     (if sep c then [] # splitOn sep cs
      else (case splitOn sep cs of [] \<Rightarrow> [[c]] | w # ws \<Rightarrow> (c # w) # ws))"

section \<open>Types (types.ts)\<close>

record GitHubAsset =
  name :: string
  browser_download_url :: string
  asset_size :: nat
  content_type :: string

record Platform =
  os :: string
  arch :: string

section \<open>PlatformMatcher (platform.ts)\<close>

definition getOSPatterns :: "string \<Rightarrow> string list" where
  "getOSPatterns s =
     (if s = ''darwin'' then [''darwin'', ''apple-darwin'', ''macos'', ''osx'']
      else if s = ''linux'' then
        [''linux'', ''linux-gnu'', ''linux-musl'', ''unknown-linux-gnu'', ''unknown-linux-musl'']
      else if s = ''windows'' then [''windows'', ''win'', ''pc-windows-msvc'', ''pc-windows-gnu'']
      else [s])"

definition getArchPatterns :: "string \<Rightarrow> string list" where
  "getArchPatterns a =
     (if a = ''x86_64'' then [''x86_64'', ''amd64'', ''x64'']
      else if a = ''aarch64'' then [''aarch64'', ''arm64'']
      else if a = ''i686'' then [''i686'', ''386'', ''i386'', ''x86'']
      else if a = ''armv7'' then [''armv7'', ''arm'']
      else [a])"

text \<open>\<open>scoreAsset\<close>, statement by statement: the early returns of the source are the
  branches that yield 0.\<close>

definition scoreAsset :: "GitHubAsset \<Rightarrow> string list \<Rightarrow> string list \<Rightarrow> int" where
  "scoreAsset asset osPatterns archPatterns =
     (let filename = toLowerCase (name asset) in
      if includesStr filename ''source'' \<or> filename = ''source.tar.gz'' \<or> filename = ''source.zip''
      then 0
      else
        let osMatch = list_ex (\<lambda>pattern. includesStr filename (toLowerCase pattern)) osPatterns in
        if \<not> osMatch then 0
        else
          let score = 10;
              archMatch = list_ex (\<lambda>pattern. includesStr filename (toLowerCase pattern)) archPatterns;
              score = (if archMatch then score + 10 else score);
              score = (if endsWith filename ''.tar.gz'' \<or> endsWith filename ''.zip''
                       then score + 5 else score);
              score = (if endsWith filename ''.tar.gz'' then score + 2 else score)
          in
            if includesStr filename ''sha256'' \<or> includesStr filename ''sig'' \<or> includesStr filename ''asc''
            then 0
            else if includesStr filename ''debug'' \<or> includesStr filename ''dev'' then score - 5
            else score)"

text \<open>
  \<open>findMatchingAsset\<close> pairs every asset with its score, keeps the pairs of positive
  score, sorts them with the comparator \<open>(a, b) => b.score - a.score\<close> and takes the
  head. \<open>Array.prototype.sort\<close> is a stable sort (ECMAScript 2019; the package requires
  Node 18), so the sort is the stable sort on the key \<open>- score\<close>.
\<close>

definition sortByScoreDesc :: "(GitHubAsset \<times> int) list \<Rightarrow> (GitHubAsset \<times> int) list" where
  "sortByScoreDesc ps = sort_key (\<lambda>p. - snd p) ps"

definition findMatchingAsset :: "GitHubAsset list \<Rightarrow> Platform \<Rightarrow> GitHubAsset option" where
  "findMatchingAsset assets platform =
     (let osPatterns = getOSPatterns (os platform);
          archPatterns = getArchPatterns (arch platform);
          scoredAssets =
            sortByScoreDesc
              (filter (\<lambda>p. snd p > 0)
                 (map (\<lambda>asset. (asset, scoreAsset asset osPatterns archPatterns)) assets))
      in case scoredAssets of [] \<Rightarrow> None | p # _ \<Rightarrow> Some (fst p))"

text \<open>The score \<open>findMatchingAsset\<close> gives an asset on a platform.\<close>

definition assetScore :: "Platform \<Rightarrow> GitHubAsset \<Rightarrow> int" where
  "assetScore platform asset =
     scoreAsset asset (getOSPatterns (os platform)) (getArchPatterns (arch platform))"

section \<open>Paths (the runtime's POSIX \<open>path\<close> module)\<close>

text \<open>
  \<open>path.join\<close> joins its non-empty arguments with \<open>/\<close> and normalises the result:
  empty and \<open>.\<close> segments are dropped, a \<open>..\<close> segment removes the segment before it
  (or is kept, in a relative path, when there is none to remove), a leading and a trailing
  slash are kept. \<open>normalizeSegments\<close> is that normalisation on the list of segments;
  its second argument is the result so far.
\<close>

definition isSlash :: "char \<Rightarrow> bool" where
  "isSlash c = (c = CHR ''/'')"

fun joinSegments :: "string list \<Rightarrow> string" where
  "joinSegments [] = []"
| "joinSegments [s] = s"
| "joinSegments (s # t # ss) = s @ ''/'' @ joinSegments (t # ss)"

fun normalizeSegments :: "bool \<Rightarrow> string list \<Rightarrow> string list \<Rightarrow> string list" where
  "normalizeSegments allowAboveRoot res [] = res"
| "normalizeSegments allowAboveRoot res (s # ss) =
     (if s = [] \<or> s = ''.'' then normalizeSegments allowAboveRoot res ss
      else if s = ''..'' then
        (if res \<noteq> [] \<and> last res \<noteq> ''..'' then normalizeSegments allowAboveRoot (butlast res) ss
         else if allowAboveRoot then normalizeSegments allowAboveRoot (res @ [''..'']) ss
         else normalizeSegments allowAboveRoot res ss)
      else normalizeSegments allowAboveRoot (res @ [s]) ss)"

definition path_normalize :: "string \<Rightarrow> string" where
  "path_normalize p =
     (if p = [] then ''.''
      else
        let isAbsolute = isSlash (hd p);
            trailingSeparator = isSlash (last p);
            res = joinSegments (normalizeSegments (\<not> isAbsolute) [] (splitOn isSlash p))
        in if res = [] then (if isAbsolute then ''/'' else if trailingSeparator then ''./'' else ''.'')
           else (if isAbsolute then ''/'' else '''') @ res @ (if trailingSeparator then ''/'' else ''''))"

definition path_join :: "string list \<Rightarrow> string" where
  "path_join args =
     (let joined = joinSegments (filter (\<lambda>a. a \<noteq> []) args)
      in if joined = [] then ''.'' else path_normalize joined)"

text \<open>
  \<open>path.extname\<close>: the extension of the last component of the path (trailing slashes
  ignored), from its last dot on; empty when the component has no dot, when its only dot is
  its first character, and for the component \<open>..\<close>.
\<close>

definition lastComponent :: "string \<Rightarrow> string" where
  "lastComponent p =
     rev (takeWhile (\<lambda>c. \<not> isSlash c) (dropWhile isSlash (rev p)))"

definition path_extname :: "string \<Rightarrow> string" where
  "path_extname p =
     (let b = lastComponent p;
          afterDot = rev (takeWhile (\<lambda>c. c \<noteq> CHR ''.'') (rev b))
      in if CHR ''.'' \<notin> set b then []
         else if length b = Suc (length afterDot) then []
         else if b = ''..'' then []
         else CHR ''.'' # afterDot)"

section \<open>Errors\<close>

datatype error =
    TypeError
  | SyntaxError
  | IOError
  | InvalidRegistryFormat
  | FailedToSaveRegistry
  | UnsupportedArchiveFormat string
  | DownloadError
  | DownloadFailedAfterAllRetries

section \<open>Downloader.extractArchive (downloader.ts)\<close>

text \<open>
  \<open>extractArchive\<close> creates the destination directory, then chooses the extractor from
  the path; the result is the extractor it calls. The first argument says whether
  \<open>fs.mkdir\<close> fails (its error is raised as it is).
\<close>

datatype extractor = ExtractTarGz | ExtractZip

definition extractArchive :: "bool \<Rightarrow> string \<Rightarrow> error + extractor" where
  "extractArchive mkdirFails archivePath =
     (if mkdirFails then Inl IOError
      else
        let ext = toLowerCase (path_extname archivePath) in
        if ext = ''.gz'' \<or> endsWith archivePath ''.tar.gz'' then Inr ExtractTarGz
        else if ext = ''.zip'' then Inr ExtractZip
        else Inl (UnsupportedArchiveFormat ext))"

section \<open>CacheManager: paths and names\<close>

text \<open>
  \<open>const [owner, repoName] = repo.split('/')\<close>: \<open>owner\<close> is the first piece, \<open>repoName\<close>
  the second one, \<open>undefined\<close> (here \<open>None\<close>) when the string has no slash. \<open>path.join\<close>
  raises a TypeError on an argument that is not a string.
\<close>

definition repoOwner :: "string \<Rightarrow> string" where
  "repoOwner repo = hd (splitOn isSlash repo)"

definition repoNameOf :: "string \<Rightarrow> string option" where
  "repoNameOf repo = (case splitOn isSlash repo of _ # r # _ \<Rightarrow> Some r | _ \<Rightarrow> None)"

definition platformKey :: "Platform \<Rightarrow> string" where
  "platformKey platform = os platform @ ''-'' @ arch platform"

definition getCachePath :: "string \<Rightarrow> string \<Rightarrow> string \<Rightarrow> Platform \<Rightarrow> error + string" where
  "getCachePath cacheDir repo version platform =
     (case repoNameOf repo of
        None \<Rightarrow> Inl TypeError
      | Some repoName \<Rightarrow>
          Inr (path_join [cacheDir, repoOwner repo, repoName, version, platformKey platform]))"

text \<open>\<open>filename.replace(/\.(tar\.gz|zip|exe)$/, '')\<close>\<close>

definition stripArchiveSuffix :: "string \<Rightarrow> string" where
  "stripArchiveSuffix filename =
     (if endsWith filename ''.tar.gz'' then take (length filename - 7) filename
      else if endsWith filename ''.zip'' \<or> endsWith filename ''.exe''
      then take (length filename - 4) filename
      else filename)"

text \<open>The \<open>for\<close> loop of \<open>guessBinaryName\<close> over the parts of the name.\<close>

fun lookForRepoName :: "string list \<Rightarrow> string \<Rightarrow> string option" where
  "lookForRepoName [] repoName = None"
| "lookForRepoName (part # parts) repoName =
     (if toLowerCase part = toLowerCase repoName then Some repoName
      else lookForRepoName parts repoName)"

definition guessBinaryName :: "string \<Rightarrow> string \<Rightarrow> string" where
  "guessBinaryName filename repoName =
     (let name = stripArchiveSuffix filename in
      if includesStr (toLowerCase name) (toLowerCase repoName) then repoName
      else
        let parts = splitOn (\<lambda>c. c = CHR ''-'' \<or> c = CHR ''_'') name in
        case lookForRepoName parts repoName of
          Some r \<Rightarrow> r
        | None \<Rightarrow> repoName)"

text \<open>
  \<open>cacheBinary\<close> up to the path it copies the binary to (\<open>cachedBinaryPath\<close> in the
  source); \<open>win32\<close> is \<open>process.platform === 'win32'\<close>. A repository string without a
  slash makes \<open>getCachePath\<close> raise before anything else happens.
\<close>

definition cachedBinaryPath ::
  "bool \<Rightarrow> string \<Rightarrow> string \<Rightarrow> string \<Rightarrow> Platform \<Rightarrow> string \<Rightarrow> error + string" where
  "cachedBinaryPath win32 cacheDir repo version platform originalFilename =
     (case getCachePath cacheDir repo version platform of
        Inl e \<Rightarrow> Inl e
      | Inr cachePath \<Rightarrow>
          (case repoNameOf repo of
             None \<Rightarrow> Inl TypeError
           | Some repoName \<Rightarrow>
               let ext = (if win32 then ''.exe'' else '''');
                   binaryName = guessBinaryName originalFilename repoName @ ext
               in Inr (path_join [cachePath, binaryName])))"

text \<open>
  A plain path segment: not empty, without a slash, and neither \<open>.\<close> nor \<open>..\<close>. Owner
  and repository names, version tags and platform keys of this shape are the valid inputs
  of \<open>getCachePath\<close>.
\<close>

definition plainSegment :: "string \<Rightarrow> bool" where
  "plainSegment s = (s \<noteq> [] \<and> \<not> list_ex isSlash s \<and> s \<noteq> ''.'' \<and> s \<noteq> ''..'')"

section \<open>JSON values\<close>

text \<open>
  The values \<open>JSON.parse\<close> returns. An object is the list of its own properties, in
  order, with distinct keys. Arrays are left out: no document of this program (registry,
  metadata, cache entry) holds one. A property that an object does not have reads as
  \<open>undefined\<close>, here \<open>None\<close>.
\<close>

datatype jval = JNull | JBool bool | JNum int | JStr string | JObj "(string \<times> jval) list"

datatype jstype = TUndefined | TObject | TBoolean | TNumber | TString

fun typeof :: "jval option \<Rightarrow> jstype" where
  "typeof None = TUndefined"
| "typeof (Some JNull) = TObject"
| "typeof (Some (JBool b)) = TBoolean"
| "typeof (Some (JNum n)) = TNumber"
| "typeof (Some (JStr s)) = TString"
| "typeof (Some (JObj ps)) = TObject"

fun truthy :: "jval \<Rightarrow> bool" where
  "truthy JNull = False"
| "truthy (JBool b) = b"
| "truthy (JNum n) = (n \<noteq> 0)"
| "truthy (JStr s) = (s \<noteq> [])"
| "truthy (JObj ps) = True"

text \<open>\<open>v.k\<close> for a fixed property name \<open>k\<close> on a value \<open>v\<close> that is not \<open>null\<close>.\<close>

fun jprop :: "jval \<Rightarrow> string \<Rightarrow> jval option" where
  "jprop (JObj ps) k = map_of ps k"
| "jprop v k = None"

section \<open>The file system\<close>

text \<open>
  A file holds either a JSON document, identified with the value it parses to, or text
  that is no JSON. \<open>JSON.parse\<close> raises a SyntaxError on the latter;
  \<open>JSON.stringify\<close> of a value gives the document of that value.
\<close>

datatype filedata = Text string | Json jval

definition JSON_parse :: "filedata \<Rightarrow> error + jval" where
  "JSON_parse d = (case d of Text t \<Rightarrow> Inl SyntaxError | Json v \<Rightarrow> Inr v)"

definition JSON_stringify :: "jval \<Rightarrow> filedata" where
  "JSON_stringify v = Json v"

text \<open>
  The state of the file system: the regular files with their contents, the directories,
  a schedule of injected faults and the trace of the primitive calls made so far. Every
  primitive call takes the next fault of the schedule (an exhausted schedule injects
  nothing). \<open>Fails\<close> makes the call raise without effect. \<open>Garbles\<close> makes a
  \<open>writeFile\<close> report success after leaving a truncated file, and makes a
  \<open>copyFile\<close> raise after it has opened its destination: the copy is not atomic, and
  the destination is removed when it fails at that point, so that what the destination
  held before is lost. \<open>Garbles\<close> is \<open>Works\<close> for the other primitives.

  A call also raises when the state of the file system says so: a missing file, a
  directory that is not empty, a directory to create where a regular file is or below a
  regular file, a file to write where a directory is. A primitive that writes does not
  ask for the parent directory: every write of the sources follows a successful
  \<open>mkdir\<close> or \<open>mkdtemp\<close> of that directory.

  The trace is ghost state: it records each call and whether it succeeded, and no
  function reads it.
\<close>

datatype fault = Works | Fails | Garbles

datatype fsop =
    Access string
  | ReadFile string
  | WriteFile string
  | CopyFile string string
  | Rename string string
  | Unlink string
  | Mkdir string
  | Rmdir string
  | Mkdtemp string

record fsys =
  files :: "(string \<times> filedata) list"
  dirs :: "string list"
  faults :: "fault list"
  trace :: "(fsop \<times> bool) list"

definition nextFault :: "fsys \<Rightarrow> fault" where
  "nextFault s = (case faults s of [] \<Rightarrow> Works | f # _ \<Rightarrow> f)"

definition called :: "fsop \<Rightarrow> bool \<Rightarrow> fsys \<Rightarrow> fsys" where
  "called ev ok s = s\<lparr>faults := tl (faults s), trace := trace s @ [(ev, ok)]\<rparr>"

definition lookupFile :: "fsys \<Rightarrow> string \<Rightarrow> filedata option" where
  "lookupFile s p = map_of (files s) p"

definition pathExists :: "fsys \<Rightarrow> string \<Rightarrow> bool" where
  "pathExists s p = (lookupFile s p \<noteq> None \<or> p \<in> set (dirs s))"

definition dirEmpty :: "fsys \<Rightarrow> string \<Rightarrow> bool" where
  "dirEmpty s d =
     (\<not> list_ex (\<lambda>p. startsWith p (d @ ''/'')) (map fst (files s) @ dirs s))"

text \<open>Some regular file is a proper ancestor of the path.\<close>

definition underFile :: "fsys \<Rightarrow> string \<Rightarrow> bool" where
  "underFile s p = list_ex (\<lambda>q. startsWith p (q @ ''/'')) (map fst (files s))"

text \<open>A regular file can be created or replaced at the path.\<close>

definition canWrite :: "fsys \<Rightarrow> string \<Rightarrow> bool" where
  "canWrite s p = (p \<notin> set (dirs s))"

text \<open>The directory is there or can be created, parents included.\<close>

definition canMkdir :: "fsys \<Rightarrow> string \<Rightarrow> bool" where
  "canMkdir s d = (lookupFile s d = None \<and> \<not> underFile s d)"

definition fs_access :: "string \<Rightarrow> fsys \<Rightarrow> (error + unit) \<times> fsys" where
  "fs_access p s =
     (if nextFault s \<noteq> Fails \<and> pathExists s p then (Inr (), called (Access p) True s)
      else (Inl IOError, called (Access p) False s))"

definition fs_readFile :: "string \<Rightarrow> fsys \<Rightarrow> (error + filedata) \<times> fsys" where
  "fs_readFile p s =
     (case lookupFile s p of
        None \<Rightarrow> (Inl IOError, called (ReadFile p) False s)
      | Some d \<Rightarrow>
          if nextFault s = Fails then (Inl IOError, called (ReadFile p) False s)
          else (Inr d, called (ReadFile p) True s))"

definition fs_writeFile :: "string \<Rightarrow> filedata \<Rightarrow> fsys \<Rightarrow> (error + unit) \<times> fsys" where
  "fs_writeFile p d s =
     (if \<not> canWrite s p then (Inl IOError, called (WriteFile p) False s)
      else
        (case nextFault s of
           Fails \<Rightarrow> (Inl IOError, called (WriteFile p) False s)
         | Garbles \<Rightarrow>
             (Inr (), called (WriteFile p) True (s\<lparr>files := AList.update p (Text []) (files s)\<rparr>))
         | Works \<Rightarrow>
             (Inr (), called (WriteFile p) True (s\<lparr>files := AList.update p d (files s)\<rparr>))))"

definition fs_copyFile :: "string \<Rightarrow> string \<Rightarrow> fsys \<Rightarrow> (error + unit) \<times> fsys" where
  "fs_copyFile src dst s =
     (case lookupFile s src of
        None \<Rightarrow> (Inl IOError, called (CopyFile src dst) False s)
      | Some d \<Rightarrow>
          if \<not> canWrite s dst then (Inl IOError, called (CopyFile src dst) False s)
          else
            (case nextFault s of
               Fails \<Rightarrow> (Inl IOError, called (CopyFile src dst) False s)
             | Garbles \<Rightarrow>
                 (Inl IOError,
                  called (CopyFile src dst) False (s\<lparr>files := AList.delete dst (files s)\<rparr>))
             | Works \<Rightarrow>
                 (Inr (),
                  called (CopyFile src dst) True (s\<lparr>files := AList.update dst d (files s)\<rparr>))))"

definition fs_rename :: "string \<Rightarrow> string \<Rightarrow> fsys \<Rightarrow> (error + unit) \<times> fsys" where
  "fs_rename src dst s =
     (case lookupFile s src of
        None \<Rightarrow> (Inl IOError, called (Rename src dst) False s)
      | Some d \<Rightarrow>
          if nextFault s = Fails \<or> \<not> canWrite s dst
          then (Inl IOError, called (Rename src dst) False s)
          else (Inr (), called (Rename src dst) True
                  (s\<lparr>files := AList.delete src (AList.update dst d (files s))\<rparr>)))"

definition fs_unlink :: "string \<Rightarrow> fsys \<Rightarrow> (error + unit) \<times> fsys" where
  "fs_unlink p s =
     (if nextFault s \<noteq> Fails \<and> lookupFile s p \<noteq> None
      then (Inr (), called (Unlink p) True (s\<lparr>files := AList.delete p (files s)\<rparr>))
      else (Inl IOError, called (Unlink p) False s))"

text \<open>\<open>fs.mkdir(d, { recursive: true })\<close>: no error when the directory exists; an
  error when \<open>d\<close> or one of its ancestors is a regular file.\<close>

definition fs_mkdir :: "string \<Rightarrow> fsys \<Rightarrow> (error + unit) \<times> fsys" where
  "fs_mkdir d s =
     (if nextFault s = Fails \<or> \<not> canMkdir s d then (Inl IOError, called (Mkdir d) False s)
      else (Inr (), called (Mkdir d) True (s\<lparr>dirs := List.insert d (dirs s)\<rparr>)))"

definition fs_rmdir :: "string \<Rightarrow> fsys \<Rightarrow> (error + unit) \<times> fsys" where
  "fs_rmdir d s =
     (if nextFault s \<noteq> Fails \<and> d \<in> set (dirs s) \<and> dirEmpty s d
      then (Inr (), called (Rmdir d) True (s\<lparr>dirs := removeAll d (dirs s)\<rparr>))
      else (Inl IOError, called (Rmdir d) False s))"

text \<open>\<open>fs.mkdtemp(pfx)\<close> creates a new directory \<open>pfx\<close> followed by six random
  characters, given here as \<open>sfx\<close>, and returns its path.\<close>

definition fs_mkdtemp :: "string \<Rightarrow> string \<Rightarrow> fsys \<Rightarrow> (error + string) \<times> fsys" where
  "fs_mkdtemp pfx sfx s =
     (if nextFault s = Fails then (Inl IOError, called (Mkdtemp pfx) False s)
      else (Inr (pfx @ sfx),
            called (Mkdtemp pfx) True (s\<lparr>dirs := List.insert (pfx @ sfx) (dirs s)\<rparr>)))"

section \<open>CacheManager.isCached\<close>

text \<open>
  \<open>getMetadata\<close> returns the parsed metadata document, or \<open>null\<close> when the file cannot
  be read or parsed. \<open>getCachePath\<close> is called outside the \<open>try\<close>, so its TypeError
  is raised to the caller.
\<close>

definition getMetadata ::
  "string \<Rightarrow> string \<Rightarrow> string \<Rightarrow> Platform \<Rightarrow> fsys \<Rightarrow> (error + jval) \<times> fsys" where
  "getMetadata cacheDir repo version platform s =
     (case getCachePath cacheDir repo version platform of
        Inl e \<Rightarrow> (Inl e, s)
      | Inr cachePath \<Rightarrow>
          let metadataPath = path_join [cachePath, ''metadata.json''] in
          (case fs_readFile metadataPath s of
             (Inl e, s1) \<Rightarrow> (Inr JNull, s1)
           | (Inr content, s1) \<Rightarrow>
               (case JSON_parse content of
                  Inl e \<Rightarrow> (Inr JNull, s1)
                | Inr v \<Rightarrow> (Inr v, s1))))"

text \<open>
  \<open>isCached\<close>. Inside the \<open>try\<close>: \<open>fs.access(metadataPath)\<close>, then \<open>getMetadata\<close>,
  then, for truthy metadata, \<open>fs.access(metadata.binaryPath)\<close>, which raises a TypeError
  when \<open>binaryPath\<close> is not a string; every error raised inside the \<open>try\<close> gives
  \<open>false\<close>.
\<close>

definition isCached ::
  "string \<Rightarrow> string \<Rightarrow> string \<Rightarrow> Platform \<Rightarrow> fsys \<Rightarrow> (error + bool) \<times> fsys" where
  "isCached cacheDir repo version platform s =
     (case getCachePath cacheDir repo version platform of
        Inl e \<Rightarrow> (Inl e, s)
      | Inr cachePath \<Rightarrow>
          let metadataPath = path_join [cachePath, ''metadata.json''] in
          (case fs_access metadataPath s of
             (Inl e, s1) \<Rightarrow> (Inr False, s1)
           | (Inr _, s1) \<Rightarrow>
               (case getMetadata cacheDir repo version platform s1 of
                  (Inl e, s2) \<Rightarrow> (Inr False, s2)
                | (Inr metadata, s2) \<Rightarrow>
                    if truthy metadata then
                      (case jprop metadata ''binaryPath'' of
                         Some (JStr binaryPath) \<Rightarrow>
                           (case fs_access binaryPath s2 of
                              (Inl e, s3) \<Rightarrow> (Inr False, s3)
                            | (Inr _, s3) \<Rightarrow> (Inr True, s3))
                       | _ \<Rightarrow> (Inr False, s2))
                    else (Inr False, s2))))"

section \<open>Downloader.downloadAsset\<close>

text \<open>
  What one call of \<open>downloadWithProgress\<close> does: it writes the whole asset to the
  target file and returns, or it raises before the target file is created (the request
  itself fails: network error, timeout, a status that is not 2xx), or it raises after
  the file was created and partly written (the stream breaks).
\<close>

datatype attempt = Downloads filedata | FailsBeforeWrite | FailsAfterPartialWrite

definition downloadWithProgress :: "attempt \<Rightarrow> string \<Rightarrow> fsys \<Rightarrow> (error + unit) \<times> fsys" where
  "downloadWithProgress outcome filePath s =
     (case outcome of
        Downloads d \<Rightarrow> (Inr (), s\<lparr>files := AList.update filePath d (files s)\<rparr>)
      | FailsBeforeWrite \<Rightarrow> (Inl DownloadError, s)
      | FailsAfterPartialWrite \<Rightarrow>
          (Inl DownloadError, s\<lparr>files := AList.update filePath (Text []) (files s)\<rparr>))"

text \<open>
  The \<open>while\<close> loop of \<open>downloadAsset\<close>. \<open>outcomes k\<close> is what the call of
  \<open>downloadWithProgress\<close> does after \<open>k\<close> failed attempts; \<open>waits\<close> collects the
  arguments of \<open>sleep\<close>, in milliseconds. The cleanup on the final failure is one
  \<open>try\<close> block holding \<open>unlink(tempFile)\<close> and then \<open>rmdir(tempDir)\<close>, so a failing
  \<open>unlink\<close> skips the \<open>rmdir\<close>.
\<close>

definition cleanupAfterFinalFailure :: "string \<Rightarrow> string \<Rightarrow> fsys \<Rightarrow> fsys" where
  "cleanupAfterFinalFailure tempFile tempDir s =
     (case fs_unlink tempFile s of
        (Inl e, s1) \<Rightarrow> s1
      | (Inr _, s1) \<Rightarrow> snd (fs_rmdir tempDir s1))"

function downloadLoop ::
  "int \<Rightarrow> (nat \<Rightarrow> attempt) \<Rightarrow> string \<Rightarrow> string \<Rightarrow> nat \<Rightarrow> int list \<Rightarrow> fsys
     \<Rightarrow> (error + string) \<times> int list \<times> fsys" where
  "downloadLoop retries outcomes tempFile tempDir attempt waits s =
     (if int attempt < retries then
        (case downloadWithProgress (outcomes attempt) tempFile s of
           (Inr _, s1) \<Rightarrow> (Inr tempFile, waits, s1)
         | (Inl e, s1) \<Rightarrow>
             if int (Suc attempt) \<ge> retries
             then (Inl e, waits, cleanupAfterFinalFailure tempFile tempDir s1)
             else downloadLoop retries outcomes tempFile tempDir (Suc attempt)
                    (waits @ [2 ^ (Suc attempt) * 1000]) s1)
      else (Inl DownloadFailedAfterAllRetries, waits, s))"
  by pat_completeness auto
termination
  by (relation "measure (\<lambda>(retries, outcomes, tempFile, tempDir, attempt, waits, s).
        nat (retries - int attempt))") auto

text \<open>\<open>tmpdir\<close> is \<open>os.tmpdir()\<close>, \<open>sfx\<close> the random part of the directory name.\<close>

definition downloadAsset ::
  "int \<Rightarrow> string \<Rightarrow> string \<Rightarrow> GitHubAsset \<Rightarrow> (nat \<Rightarrow> attempt) \<Rightarrow> fsys
     \<Rightarrow> (error + string) \<times> int list \<times> fsys" where
  "downloadAsset retries tmpdir sfx asset outcomes s =
     (case fs_mkdtemp (path_join [tmpdir, ''gpx-'']) sfx s of
        (Inl e, s1) \<Rightarrow> (Inl e, [], s1)
      | (Inr tempDir, s1) \<Rightarrow>
          downloadLoop retries outcomes (path_join [tempDir, name asset]) tempDir 0 [] s1)"

section \<open>RegistryManager (registry.ts)\<close>

text \<open>
  The registry object in memory: the list of its own members, in order, as
  \<open>JSON.parse\<close> or \<open>createEmptyRegistry\<close> made it. The value of its member
  \<open>entries\<close> is held apart (what the list keeps under that key is not read): it is
  \<open>null\<close> (\<open>None\<close>; the validator lets it through, since \<open>typeof null\<close> is
  \<open>'object'\<close>) or an object, given by the list of its own properties in order and by
  its prototype. Entry objects live in a store, so that two keys can hold the very same
  object and \<open>===\<close> on entries is equality of addresses: a property maps a key to an
  address, the store maps an address to the value there. The prototype of the entries
  object is \<open>Object.prototype\<close> (\<open>None\<close>) until an assignment to the key
  \<open>__proto__\<close> replaces it by an entry object.
\<close>

record Registry =
  reg_members :: "(string \<times> jval) list"
  reg_entries :: "(string \<times> nat) list option"
  reg_proto :: "nat option"

record RegistryManager =
  registryPath :: string
  registry :: "Registry option"
  store :: "nat \<Rightarrow> jval"
  nextAddr :: nat

text \<open>
  Reading \<open>obj[key]\<close> on the \<open>entries\<close> object goes along the prototype chain:
  an own property; else a member of the entry object that has replaced the prototype;
  else, for the key \<open>__proto__\<close>, the prototype itself; else a member of
  \<open>Object.prototype\<close> (each of them a function or an object, hence truthy, and
  without a \<open>repo\<close> member); else \<open>undefined\<close>.
\<close>

datatype property = Own nat | Prototype nat | Inherited jval | Builtin | Missing

definition objectPrototypeNames :: "string list" where
  "objectPrototypeNames =
     [''constructor'', ''__defineGetter__'', ''__defineSetter__'', ''hasOwnProperty'',
      ''__lookupGetter__'', ''__lookupSetter__'', ''isPrototypeOf'', ''propertyIsEnumerable'',
      ''toString'', ''valueOf'', ''__proto__'', ''toLocaleString'']"

definition getProperty ::
  "(nat \<Rightarrow> jval) \<Rightarrow> (string \<times> nat) list \<Rightarrow> nat option \<Rightarrow> string \<Rightarrow> property" where
  "getProperty st ps proto key =
     (case map_of ps key of
        Some a \<Rightarrow> Own a
      | None \<Rightarrow>
          (case (case proto of Some p \<Rightarrow> jprop (st p) key | None \<Rightarrow> None) of
             Some v \<Rightarrow> Inherited v
           | None \<Rightarrow>
               if key = ''__proto__'' \<and> proto \<noteq> None then Prototype (the proto)
               else if key \<in> set objectPrototypeNames then Builtin
               else Missing))"

text \<open>
  The object a property read gives, when it is one of the store: \<open>===\<close> between two
  reads compares these. A member of the prototype entry is a value inside that entry and
  is no object of the store.
\<close>

fun identityOf :: "property \<Rightarrow> nat option" where
  "identityOf (Own a) = Some a"
| "identityOf (Prototype p) = Some p"
| "identityOf _ = None"

text \<open>
  \<open>obj[key] = entry\<close>: an own property is overwritten in place, a new one is appended.
  An assignment to \<open>__proto__\<close>, when that is not an own property, adds no property
  and makes the entry the prototype of the object. (JavaScript lists a key that is an
  array index, such as \<open>7\<close>, before the other keys, wherever it was added; here
  such a key is appended like any other, which only changes the place of that key in the
  saved document.)
\<close>

definition setProperty ::
  "(string \<times> nat) list \<times> nat option \<Rightarrow> string \<Rightarrow> nat \<Rightarrow> (string \<times> nat) list \<times> nat option" where
  "setProperty obj key a =
     (case obj of (ps, proto) \<Rightarrow>
        if map_of ps key = None \<and> key = ''__proto__'' then (ps, Some a)
        else (AList.update key a ps, proto))"

text \<open>\<open>delete obj[key]\<close>: removes an own property and does nothing otherwise.\<close>

definition deleteProperty :: "(string \<times> nat) list \<Rightarrow> string \<Rightarrow> (string \<times> nat) list" where
  "deleteProperty ps key = AList.delete key ps"

text \<open>\<open>JSON.stringify(this.registry)\<close>, as a value: the own members, with the entries
  object written out from the store.\<close>

definition entriesToJson :: "(nat \<Rightarrow> jval) \<Rightarrow> (string \<times> nat) list \<Rightarrow> jval" where
  "entriesToJson st ps = JObj (map (\<lambda>(k, a). (k, st a)) ps)"

definition registryToJson :: "(nat \<Rightarrow> jval) \<Rightarrow> Registry \<Rightarrow> jval" where
  "registryToJson st r =
     JObj (AList.update ''entries''
             (case reg_entries r of None \<Rightarrow> JNull | Some ps \<Rightarrow> entriesToJson st ps)
             (reg_members r))"

text \<open>
  \<open>JSON.parse(content) as Registry\<close> for a document that passed \<open>isValidRegistry\<close>:
  all members are kept, and every entry of the document becomes an object of its own,
  at a new address.
\<close>

fun allocEntries ::
  "(string \<times> jval) list \<Rightarrow> RegistryManager \<Rightarrow> (string \<times> nat) list \<times> RegistryManager" where
  "allocEntries [] m = ([], m)"
| "allocEntries ((k, v) # kvs) m =
     (let a = nextAddr m;
          (ps, m') = allocEntries kvs (m\<lparr>store := (store m)(a := v), nextAddr := Suc a\<rparr>)
      in ((k, a) # ps, m'))"

definition registryOfJson :: "jval \<Rightarrow> RegistryManager \<Rightarrow> Registry \<times> RegistryManager" where
  "registryOfJson j m =
     (let members = (case j of JObj kvs \<Rightarrow> kvs | _ \<Rightarrow> [])
      in case jprop j ''entries'' of
           Some (JObj kvs) \<Rightarrow>
             (let (ps, m') = allocEntries kvs m
              in (\<lparr>reg_members = members, reg_entries = Some ps, reg_proto = None\<rparr>, m'))
         | _ \<Rightarrow> (\<lparr>reg_members = members, reg_entries = None, reg_proto = None\<rparr>, m))"

definition isValidRegistry :: "jval \<Rightarrow> bool" where
  "isValidRegistry r =
     (truthy r
      \<and> typeof (Some r) = TObject
      \<and> typeof (jprop r ''version'') = TString
      \<and> typeof (jprop r ''entries'') = TObject
      \<and> typeof (jprop r ''lastUpdated'') = TString)"

definition createEmptyRegistry :: "string \<Rightarrow> Registry" where
  "createEmptyRegistry now =
     \<lparr>reg_members = [(''version'', JStr ''1.0''), (''entries'', JObj []), (''lastUpdated'', JStr now)],
      reg_entries = Some [], reg_proto = None\<rparr>"

text \<open>\<open>this.registry.lastUpdated = now\<close>\<close>

definition touch :: "string \<Rightarrow> Registry \<Rightarrow> Registry" where
  "touch now r = r\<lparr>reg_members := AList.update ''lastUpdated'' (JStr now) (reg_members r)\<rparr>"

text \<open>
  \<open>path.dirname\<close>: the path up to the last slash that follows a component, without
  trailing slashes; \<open>/\<close> or \<open>.\<close> when there is no such slash.
\<close>

definition path_dirname :: "string \<Rightarrow> string" where
  "path_dirname p =
     (if p = [] then ''.''
      else
        let hasRoot = isSlash (hd p);
            upToSlash = dropWhile (\<lambda>c. \<not> isSlash c) (dropWhile isSlash (rev p));
            dir = rev (tl upToSlash)
        in if dir = [] then (if hasRoot then ''/'' else ''.'')
           else if hasRoot \<and> length dir = 1 then ''//''
           else dir)"

subsection \<open>save\<close>

text \<open>
  \<open>now\<close> is \<open>new Date().toISOString()\<close>. The blocks of the \<open>try\<close> of \<open>save\<close>, in
  order: the backup (\<open>access\<close> and \<open>copyFile\<close> in a \<open>try\<close> of their own, which
  swallows their errors), the commit (\<open>writeFile\<close>, \<open>readFile\<close>, \<open>JSON.parse\<close>,
  \<open>rename\<close>) and the removal of \<open>.backup.old\<close> (again in a swallowing \<open>try\<close>). An
  error of the outer \<open>try\<close> is answered by \<open>unlink(tempPath)\<close>, whose own error is
  ignored, and the error "Failed to save registry". \<open>mkdir\<close> is called before the
  \<open>try\<close>.
\<close>

definition createBackup :: "string \<Rightarrow> fsys \<Rightarrow> fsys" where
  "createBackup path s =
     (case fs_access path s of
        (Inl e, s1) \<Rightarrow> s1
      | (Inr _, s1) \<Rightarrow> snd (fs_copyFile path (path @ ''.backup'') s1))"

definition cleanOldBackup :: "string \<Rightarrow> fsys \<Rightarrow> fsys" where
  "cleanOldBackup path s =
     (case fs_access (path @ ''.backup.old'') s of
        (Inl e, s1) \<Rightarrow> s1
      | (Inr _, s1) \<Rightarrow> snd (fs_unlink (path @ ''.backup.old'') s1))"

definition saveCommit :: "string \<Rightarrow> jval \<Rightarrow> fsys \<Rightarrow> (error + unit) \<times> fsys" where
  "saveCommit path doc s =
     (let tempPath = path @ ''.tmp''
      in case fs_writeFile tempPath (JSON_stringify doc) s of
           (Inl e, s2) \<Rightarrow> (Inl e, s2)
         | (Inr _, s2) \<Rightarrow>
             (case fs_readFile tempPath s2 of
                (Inl e, s3) \<Rightarrow> (Inl e, s3)
              | (Inr tempContent, s3) \<Rightarrow>
                  (case JSON_parse tempContent of
                     Inl e \<Rightarrow> (Inl e, s3)
                   | Inr _ \<Rightarrow>
                       (case fs_rename tempPath path s3 of
                          (Inl e, s4) \<Rightarrow> (Inl e, s4)
                        | (Inr _, s4) \<Rightarrow> (Inr (), cleanOldBackup path s4)))))"

definition saveTry :: "string \<Rightarrow> jval \<Rightarrow> fsys \<Rightarrow> (error + unit) \<times> fsys" where
  "saveTry path doc s = saveCommit path doc (createBackup path s)"

definition save ::
  "string \<Rightarrow> RegistryManager \<Rightarrow> fsys \<Rightarrow> (error + unit) \<times> RegistryManager \<times> fsys" where
  "save now m s =
     (case registry m of
        None \<Rightarrow> (Inr (), m, s)
      | Some r \<Rightarrow>
          let r' = touch now r;
              m' = m\<lparr>registry := Some r'\<rparr>
          in case fs_mkdir (path_dirname (registryPath m)) s of
               (Inl e, s1) \<Rightarrow> (Inl e, m', s1)
             | (Inr _, s1) \<Rightarrow>
                 (case saveTry (registryPath m) (registryToJson (store m') r') s1 of
                    (Inr _, s2) \<Rightarrow> (Inr (), m', s2)
                  | (Inl e, s2) \<Rightarrow>
                      (Inl FailedToSaveRegistry, m',
                       snd (fs_unlink (registryPath m @ ''.tmp'') s2))))"

subsection \<open>load\<close>

definition readDocument :: "string \<Rightarrow> fsys \<Rightarrow> (error + jval) \<times> fsys" where
  "readDocument path s =
     (case fs_readFile path s of
        (Inl e, s1) \<Rightarrow> (Inl e, s1)
      | (Inr content, s1) \<Rightarrow> (JSON_parse content, s1))"

text \<open>
  The \<open>catch\<close> branch of \<open>load\<close>. Its inner \<open>try\<close> reads the backup and, when the
  backup is valid, makes it the registry, saves and returns; an error in there, the one
  of that \<open>save\<close> included, is swallowed. What follows creates the empty registry and
  saves it, outside any \<open>try\<close>.
\<close>

definition restoreBackup ::
  "string \<Rightarrow> RegistryManager \<Rightarrow> fsys \<Rightarrow> (Registry option) \<times> RegistryManager \<times> fsys" where
  "restoreBackup now m s =
     (case readDocument (registryPath m @ ''.backup'') s of
        (Inl e, s1) \<Rightarrow> (None, m, s1)
      | (Inr backupRegistry, s1) \<Rightarrow>
          if isValidRegistry backupRegistry then
            (let (r, m1) = registryOfJson backupRegistry m;
                 m2 = m1\<lparr>registry := Some r\<rparr>
             in case save now m2 s1 of
                  (Inl e, m3, s2) \<Rightarrow> (None, m3, s2)
                | (Inr _, m3, s2) \<Rightarrow> (registry m3, m3, s2))
          else (None, m, s1))"

definition recover ::
  "string \<Rightarrow> RegistryManager \<Rightarrow> fsys \<Rightarrow> (error + Registry) \<times> RegistryManager \<times> fsys" where
  "recover now m s =
     (case restoreBackup now m s of
        (Some r, m1, s1) \<Rightarrow> (Inr r, m1, s1)
      | (None, m1, s1) \<Rightarrow>
          (let m2 = m1\<lparr>registry := Some (createEmptyRegistry now)\<rparr>
           in case save now m2 s1 of
                (Inl e, m3, s2) \<Rightarrow> (Inl e, m3, s2)
              | (Inr _, m3, s2) \<Rightarrow>
                  (case registry m3 of
                     Some r \<Rightarrow> (Inr r, m3, s2)
                   | None \<Rightarrow> (Inl TypeError, m3, s2))))"

text \<open>
  The \<open>try\<close> block of \<open>load\<close>: read, parse, validate, and raise "Invalid
  registry format" on a document that fails the validation. The source assigns the parsed
  document to \<open>this.registry\<close> before it validates it; an invalid one is replaced in
  the \<open>catch\<close> branch before \<open>load\<close> returns or raises, so the assignment is made
  here after the validation.
\<close>

definition loadTry ::
  "RegistryManager \<Rightarrow> fsys \<Rightarrow> (error + Registry) \<times> RegistryManager \<times> fsys" where
  "loadTry m s =
     (case readDocument (registryPath m) s of
        (Inl e, s1) \<Rightarrow> (Inl e, m, s1)
      | (Inr parsed, s1) \<Rightarrow>
          if \<not> isValidRegistry parsed then (Inl InvalidRegistryFormat, m, s1)
          else
            (let (r, m1) = registryOfJson parsed m
             in (Inr r, m1\<lparr>registry := Some r\<rparr>, s1)))"

definition load ::
  "string \<Rightarrow> RegistryManager \<Rightarrow> fsys \<Rightarrow> (error + Registry) \<times> RegistryManager \<times> fsys" where
  "load now m s =
     (case registry m of
        Some r \<Rightarrow> (Inr r, m, s)
      | None \<Rightarrow>
          (case loadTry m s of
             (Inr r, m1, s1) \<Rightarrow> (Inr r, m1, s1)
           | (Inl e, m1, s1) \<Rightarrow> recover now m1 s1))"

subsection \<open>addEntry and removeEntry\<close>

definition newEntry :: "string \<Rightarrow> string \<Rightarrow> string \<Rightarrow> Platform \<Rightarrow> string \<Rightarrow> jval" where
  "newEntry binaryName repo version platform now =
     JObj [(''repo'', JStr repo),
           (''binaryName'', JStr binaryName),
           (''version'', JStr version),
           (''installDate'', JStr now),
           (''lastUsed'', JStr now),
           (''platform'', JObj [(''os'', JStr (os platform)), (''arch'', JStr (arch platform))])]"

text \<open>The alias key of a repository string: its second piece, when there is one and it
  is not empty (\<open>repoName &&\<close>).\<close>

definition aliasOf :: "string \<Rightarrow> string option" where
  "aliasOf repo = (case repoNameOf repo of Some r \<Rightarrow> if r \<noteq> [] then Some r else None | None \<Rightarrow> None)"

definition addEntry ::
  "string \<Rightarrow> string \<Rightarrow> string \<Rightarrow> Platform \<Rightarrow> string \<Rightarrow> RegistryManager \<Rightarrow> fsys
     \<Rightarrow> (error + unit) \<times> RegistryManager \<times> fsys" where
  "addEntry binaryName repo version platform now m s =
     (case load now m s of
        (Inl e, m1, s1) \<Rightarrow> (Inl e, m1, s1)
      | (Inr r, m1, s1) \<Rightarrow>
          let a = nextAddr m1;
              m2 = m1\<lparr>store := (store m1)(a := newEntry binaryName repo version platform now),
                       nextAddr := Suc a\<rparr>
          in case reg_entries r of
               None \<Rightarrow> (Inl TypeError, m2, s1)
             | Some ps \<Rightarrow>
                 let obj1 = setProperty (ps, reg_proto r) binaryName a;
                     obj2 = (case aliasOf repo of
                               Some repoName \<Rightarrow>
                                 if repoName \<noteq> binaryName then setProperty obj1 repoName a else obj1
                             | None \<Rightarrow> obj1);
                     m3 = m2\<lparr>registry := Some (r\<lparr>reg_entries := Some (fst obj2),
                                                   reg_proto := snd obj2\<rparr>)\<rparr>
                 in save now m3 s1)"

text \<open>
  \<open>removeEntry\<close> from the point where \<open>entry\<close> has been read: \<open>entry\<close> is its
  value, \<open>ident\<close> the object of the store it is, if any. The \<open>delete\<close> of the key
  comes before \<open>entry.repo.split\<close>, which raises a TypeError when \<open>entry.repo\<close> is
  no string; the registry in memory has lost the key then, and nothing is saved.
\<close>

definition removeFound ::
  "string \<Rightarrow> string \<Rightarrow> Registry \<Rightarrow> (string \<times> nat) list \<Rightarrow> jval \<Rightarrow> nat option
     \<Rightarrow> RegistryManager \<Rightarrow> fsys \<Rightarrow> (error + bool) \<times> RegistryManager \<times> fsys" where
  "removeFound binaryName now r ps entry ident m1 s1 =
     (if \<not> truthy entry then (Inr False, m1, s1)
      else
        let ps1 = deleteProperty ps binaryName;
            m2 = m1\<lparr>registry := Some (r\<lparr>reg_entries := Some ps1\<rparr>)\<rparr>
        in case jprop entry ''repo'' of
             Some (JStr repo) \<Rightarrow>
               let ps2 = (case aliasOf repo of
                            Some repoName \<Rightarrow>
                              if repoName \<noteq> binaryName \<and> ident \<noteq> None
                                 \<and> identityOf (getProperty (store m1) ps1 (reg_proto r) repoName) = ident
                              then deleteProperty ps1 repoName else ps1
                          | None \<Rightarrow> ps1);
                   m3 = m1\<lparr>registry := Some (r\<lparr>reg_entries := Some ps2\<rparr>)\<rparr>
               in (case save now m3 s1 of
                     (Inl e, m4, s2) \<Rightarrow> (Inl e, m4, s2)
                   | (Inr _, m4, s2) \<Rightarrow> (Inr True, m4, s2))
           | _ \<Rightarrow> (Inl TypeError, m2, s1))"

text \<open>
  \<open>removeEntry\<close>. A member of \<open>Object.prototype\<close> passes the test \<open>!entry\<close>;
  deleting it changes nothing, and \<open>entry.repo.split\<close> raises a TypeError since
  \<open>entry.repo\<close> is \<open>undefined\<close>.
\<close>

definition removeEntry ::
  "string \<Rightarrow> string \<Rightarrow> RegistryManager \<Rightarrow> fsys \<Rightarrow> (error + bool) \<times> RegistryManager \<times> fsys" where
  "removeEntry binaryName now m s =
     (case load now m s of
        (Inl e, m1, s1) \<Rightarrow> (Inl e, m1, s1)
      | (Inr r, m1, s1) \<Rightarrow>
          (case reg_entries r of
             None \<Rightarrow> (Inl TypeError, m1, s1)
           | Some ps \<Rightarrow>
               (case getProperty (store m1) ps (reg_proto r) binaryName of
                  Missing \<Rightarrow> (Inr False, m1, s1)
                | Builtin \<Rightarrow> (Inl TypeError, m1, s1)
                | Own a \<Rightarrow> removeFound binaryName now r ps (store m1 a) (Some a) m1 s1
                | Prototype p \<Rightarrow> removeFound binaryName now r ps (store m1 p) (Some p) m1 s1
                | Inherited v \<Rightarrow> removeFound binaryName now r ps v None m1 s1)))"

text \<open>\<open>clearCache\<close> drops the registry held in memory.\<close>

definition clearCache :: "RegistryManager \<Rightarrow> RegistryManager" where
  "clearCache m = m\<lparr>registry := None\<rparr>"

subsection \<open>Vocabulary of the statements\<close>

text \<open>The registry document a path holds, when the file is there, parses and passes
  \<open>isValidRegistry\<close>.\<close>

definition validDocument :: "fsys \<Rightarrow> string \<Rightarrow> jval option" where
  "validDocument s path =
     (case lookupFile s path of
        Some (Json j) \<Rightarrow> if isValidRegistry j then Some j else None
      | _ \<Rightarrow> None)"

text \<open>A document with its \<open>lastUpdated\<close> member set.\<close>

definition withLastUpdated :: "string \<Rightarrow> jval \<Rightarrow> jval" where
  "withLastUpdated now j =
     (case j of JObj kvs \<Rightarrow> JObj (AList.update ''lastUpdated'' (JStr now) kvs) | _ \<Rightarrow> j)"

text \<open>
  The fault that the \<open>n\<close>-th primitive call from here on takes (counted from 0);
  \<open>quietFrom n\<close>: no fault is injected from that call on.
\<close>

definition faultAt :: "fsys \<Rightarrow> nat \<Rightarrow> fault" where
  "faultAt s n = (case drop n (faults s) of [] \<Rightarrow> Works | f # _ \<Rightarrow> f)"

definition quietFrom :: "nat \<Rightarrow> fsys \<Rightarrow> bool" where
  "quietFrom n s = list_all (\<lambda>f. f = Works) (drop n (faults s))"

definition quiet :: "fsys \<Rightarrow> bool" where
  "quiet s = quietFrom 0 s"

text \<open>
  Nothing on disk stands in the way of a \<open>save\<close> to the path: its directory is there
  or can be made, and neither the path nor the temporary path is a directory.
  \<open>canBackup\<close> says the same of the backup path.
\<close>

definition canSave :: "fsys \<Rightarrow> string \<Rightarrow> bool" where
  "canSave s path =
     (let dir = path_dirname path;
          s1 = s\<lparr>dirs := List.insert dir (dirs s)\<rparr>
      in canMkdir s dir \<and> canWrite s1 path \<and> canWrite s1 (path @ ''.tmp''))"


text \<open>The address of the entry object that a key of the registry in memory holds as an
  own property.\<close>

definition entryAddress :: "RegistryManager \<Rightarrow> string \<Rightarrow> nat option" where
  "entryAddress m key =
     (case registry m of
        None \<Rightarrow> None
      | Some r \<Rightarrow> (case reg_entries r of None \<Rightarrow> None | Some ps \<Rightarrow> map_of ps key))"


section \<open>Properties of the string and path primitives\<close>

lemma endsWith_appendD: "endsWith p s \<Longrightarrow> \<exists>q. p = q @ s"
  unfolding endsWith_def by (metis append_take_drop_id)

lemma endsWith_appendI: "endsWith (q @ s) s"
  by (simp add: endsWith_def)

lemma toLowerCase_dot_gz: "toLowerCase ''.gz'' = ''.gz''"
  by code_simp

lemma path_extname_tar_gz: "path_extname (q @ ''.tar.gz'') = ''.gz''"
  by (simp add: path_extname_def lastComponent_def isSlash_def Let_def)

lemma path_extname_tgz:
  "path_extname (q @ ''.tgz'') = ''.tgz'' \<or> path_extname (q @ ''.tgz'') = []"
  by (simp add: path_extname_def lastComponent_def isSlash_def Let_def)

section \<open>PlatformMatcher.findMatchingAsset\<close>

lemma find_as_filter:
  "List.find P xs = (case filter P xs of [] \<Rightarrow> None | x # _ \<Rightarrow> Some x)"
  by (induction xs) auto

text \<open>The head of a stable sort is the first element of the input with the least key.\<close>

lemma hd_sort_key_first_min:
  assumes "xs \<noteq> []"
  shows "hd (sort_key f xs) = hd (filter (\<lambda>x. \<forall>y\<in>set xs. f x \<le> f y) xs)"
proof -
  let ?ys = "sort_key f xs"
  have ne: "?ys \<noteq> []" using assms by (metis length_sort length_0_conv)
  obtain y ys where ys: "?ys = y # ys" using ne by (cases ?ys) auto
  have srt: "sorted (map f ?ys)" by (rule sorted_sort_key)
  have ymin: "\<forall>z\<in>set xs. f y \<le> f z"
  proof
    fix z assume "z \<in> set xs"
    then have "z \<in> set ?ys" by simp
    then show "f y \<le> f z" using srt unfolding ys by auto
  qed
  have yin: "y \<in> set xs" using ys by (metis list.set_intros(1) set_sort)
  have eq: "(\<lambda>x. \<forall>z\<in>set xs. f x \<le> f z) x = (f x = f y)" if "x \<in> set xs" for x
    using ymin yin that by (auto intro: antisym)
  have "filter (\<lambda>x. \<forall>z\<in>set xs. f x \<le> f z) xs = filter (\<lambda>x. f x = f y) xs"
    by (rule filter_cong) (auto simp: eq)
  also have "\<dots> = filter (\<lambda>x. f x = f y) ?ys" by (simp add: sort_key_stable)
  finally have "hd (filter (\<lambda>x. \<forall>z\<in>set xs. f x \<le> f z) xs) = hd (filter (\<lambda>x. f x = f y) ?ys)"
    by simp
  also have "\<dots> = y" unfolding ys by simp
  finally show ?thesis unfolding ys by simp
qed

text \<open>
  C2. For every asset list and platform, \<open>findMatchingAsset\<close> returns the first asset, in
  the order of the input list, among those whose score is positive and maximal (and none
  when no asset has a positive score). Of two assets with the same, maximal score the one
  that comes first in the input is returned.
\<close>

theorem findMatchingAsset_first_of_best:
  "findMatchingAsset assets p =
     List.find (\<lambda>a. 0 < assetScore p a \<and> (\<forall>b\<in>set assets. assetScore p b \<le> assetScore p a)) assets"
proof -
  define sc where "sc = (\<lambda>a. scoreAsset a (getOSPatterns (os p)) (getArchPatterns (arch p)))"
  define pos where "pos = filter (\<lambda>a. 0 < sc a) assets"
  define ps where "ps = map (\<lambda>a. (a, sc a)) pos"
  have sc: "assetScore p = sc"
    by (rule ext) (simp add: assetScore_def sc_def)
  have ps_eq: "filter (\<lambda>p. snd p > 0) (map (\<lambda>asset. (asset, sc asset)) assets) = ps"
    by (simp add: ps_def pos_def filter_map comp_def)
  have fm: "findMatchingAsset assets p =
      (case sort_key (\<lambda>p. - snd p) ps of [] \<Rightarrow> None | q # _ \<Rightarrow> Some (fst q))"
    by (simp add: findMatchingAsset_def sortByScoreDesc_def Let_def ps_eq [unfolded sc_def] sc_def)
  have best: "filter (\<lambda>a. 0 < sc a \<and> (\<forall>b\<in>set assets. sc b \<le> sc a)) assets
      = filter (\<lambda>a. \<forall>b\<in>set pos. sc b \<le> sc a) pos"
    unfolding pos_def filter_filter
    by (rule filter_cong) (auto simp: not_less intro: order_trans less_imp_le)
  show ?thesis
  proof (cases "ps = []")
    case True
    then have "pos = []" by (simp add: ps_def)
    then show ?thesis
      using True by (simp add: fm find_as_filter best sc)
  next
    case False
    then have posne: "pos \<noteq> []" by (simp add: ps_def)
    have sortne: "sort_key (\<lambda>p. - snd p) ps \<noteq> []"
      using False by (metis length_sort length_0_conv)
    have "hd (sort_key (\<lambda>p. - snd p) ps) = hd (filter (\<lambda>x. \<forall>y\<in>set ps. - snd x \<le> - snd y) ps)"
      by (rule hd_sort_key_first_min [OF False])
    also have "filter (\<lambda>x. \<forall>y\<in>set ps. - snd x \<le> - snd y) ps
        = map (\<lambda>a. (a, sc a)) (filter (\<lambda>a. \<forall>b\<in>set pos. sc b \<le> sc a) pos)"
      by (simp add: ps_def filter_map comp_def)
    finally have hd_eq: "hd (sort_key (\<lambda>p. - snd p) ps)
        = hd (map (\<lambda>a. (a, sc a)) (filter (\<lambda>a. \<forall>b\<in>set pos. sc b \<le> sc a) pos))" .
    have "\<exists>a\<in>set pos. \<forall>b\<in>set pos. sc b \<le> sc a"
    proof -
      have "finite (sc ` set pos)" "sc ` set pos \<noteq> {}" using posne by auto
      then have "Max (sc ` set pos) \<in> sc ` set pos" by (rule Max_in)
      then obtain a where "a \<in> set pos" "sc a = Max (sc ` set pos)" by auto
      then show ?thesis by (intro bexI [of _ a]) auto
    qed
    then have fne: "filter (\<lambda>a. \<forall>b\<in>set pos. sc b \<le> sc a) pos \<noteq> []"
      by (auto simp: filter_empty_conv)
    show ?thesis
      using sortne fne hd_eq
      by (auto simp add: fm find_as_filter best sc hd_map split: list.splits)
  qed
qed

text \<open>
  Two synthetic assets of equal score (27 each) before a third of lower score: the first
  one is returned.
\<close>

theorem findMatchingAsset_first_of_best_witness:
  "findMatchingAsset
     [\<lparr>name = ''tool-linux-amd64.tar.gz'', browser_download_url = ''u1'', asset_size = 1,
         content_type = ''application/gzip''\<rparr>,
      \<lparr>name = ''tool-linux-x86_64.tar.gz'', browser_download_url = ''u2'', asset_size = 2,
         content_type = ''application/gzip''\<rparr>,
      \<lparr>name = ''tool-linux-x86_64.zip'', browser_download_url = ''u3'', asset_size = 3,
         content_type = ''application/zip''\<rparr>]
     \<lparr>os = ''linux'', arch = ''x86_64''\<rparr>
   = Some \<lparr>name = ''tool-linux-amd64.tar.gz'', browser_download_url = ''u1'', asset_size = 1,
         content_type = ''application/gzip''\<rparr>"
  by (subst findMatchingAsset_first_of_best) code_simp

section \<open>Downloader.extractArchive\<close>

text \<open>
  A path ending in \<open>.tgz\<close> is refused, and a \<open>.gz\<close> file that is no tar archive is
  handed to the tar extractor: the dispatch claimed for C6 (tar for \<open>.tar.gz\<close> and
  \<open>.tgz\<close>, an error for every extension other than these and \<open>.zip\<close>) is not the one of
  the code.
\<close>

theorem extractArchive_tgz_counterexample:
  "extractArchive False ''tool.tgz'' = Inl (UnsupportedArchiveFormat ''.tgz'')
   \<and> extractArchive False ''notes.gz'' = Inr ExtractTarGz"
  by code_simp

text \<open>
  C6, amended. \<open>extractArchive\<close> dispatches on the lower-cased \<open>path.extname\<close> of the
  archive path: \<open>.gz\<close> (so every path ending in \<open>.tar.gz\<close>) goes to the tar extractor,
  \<open>.zip\<close> to the zip extractor, and every other extension, \<open>.tgz\<close> among them, raises
  "Unsupported archive format" with that extension; there is no outcome besides these.
\<close>

theorem extractArchive_dispatch:
  "extractArchive False p =
     (if toLowerCase (path_extname p) = ''.gz'' then Inr ExtractTarGz
      else if toLowerCase (path_extname p) = ''.zip'' then Inr ExtractZip
      else Inl (UnsupportedArchiveFormat (toLowerCase (path_extname p))))
   \<and> (endsWith p ''.tar.gz'' \<longrightarrow> extractArchive False p = Inr ExtractTarGz)
   \<and> (endsWith p ''.tgz'' \<longrightarrow> (\<exists>ext. extractArchive False p = Inl (UnsupportedArchiveFormat ext)))"
proof (intro conjI impI)
  have tar: "toLowerCase (path_extname p) = ''.gz''" if "endsWith p ''.tar.gz''"
    using endsWith_appendD [OF that] by (auto simp: path_extname_tar_gz toLowerCase_dot_gz)
  show "extractArchive False p =
     (if toLowerCase (path_extname p) = ''.gz'' then Inr ExtractTarGz
      else if toLowerCase (path_extname p) = ''.zip'' then Inr ExtractZip
      else Inl (UnsupportedArchiveFormat (toLowerCase (path_extname p))))"
    using tar by (auto simp: extractArchive_def Let_def)
  show "extractArchive False p = Inr ExtractTarGz" if "endsWith p ''.tar.gz''"
    using that by (simp add: extractArchive_def)
  show "\<exists>ext. extractArchive False p = Inl (UnsupportedArchiveFormat ext)" if e: "endsWith p ''.tgz''"
  proof -
    obtain q where q: "p = q @ ''.tgz''" using endsWith_appendD [OF e] by blast
    have lower: "toLowerCase ''.tgz'' = ''.tgz''" "toLowerCase [] = []" by code_simp+
    have nt: "\<not> endsWith (q @ ''.tgz'') ''.tar.gz''"
      by (auto simp: endsWith_def)
    show ?thesis
      using path_extname_tgz [of q] nt unfolding q
      by (auto simp: extractArchive_def Let_def lower)
  qed
qed

theorem extractArchive_dispatch_witness:
  "endsWith ''rg-14.1.1-x86_64.tar.gz'' ''.tar.gz''
   \<and> extractArchive False ''rg-14.1.1-x86_64.tar.gz'' = Inr ExtractTarGz
   \<and> endsWith ''rg.tgz'' ''.tgz''
   \<and> (\<exists>ext. extractArchive False ''rg.tgz'' = Inl (UnsupportedArchiveFormat ext))"
proof -
  have a: "endsWith ''rg-14.1.1-x86_64.tar.gz'' ''.tar.gz''" by code_simp
  have b: "endsWith ''rg.tgz'' ''.tgz''" by code_simp
  show ?thesis
    using a b extractArchive_dispatch [of "''rg-14.1.1-x86_64.tar.gz''"]
      extractArchive_dispatch [of "''rg.tgz''"]
    by blast
qed

section \<open>CacheManager.guessBinaryName\<close>

lemma lookForRepoName_Some: "lookForRepoName parts repoName = Some r \<Longrightarrow> r = repoName"
  by (induction parts) (auto split: if_splits)

text \<open>
  C9. Every branch of \<open>guessBinaryName\<close> returns the repository's short name, so the
  name \<open>cacheBinary\<close> installs the binary under is that short name (with \<open>.exe\<close> on
  Windows) and does not depend on the original asset filename.
\<close>

theorem guessBinaryName_repoName:
  "guessBinaryName filename repoName = repoName
   \<and> cachedBinaryPath win32 cacheDir repo version platform filename
       = cachedBinaryPath win32 cacheDir repo version platform filename'
   \<and> cachedBinaryPath win32 cacheDir repo version platform filename
       = (case repoNameOf repo of
            None \<Rightarrow> Inl TypeError
          | Some r \<Rightarrow>
              Inr (path_join
                     [path_join [cacheDir, repoOwner repo, r, version, platformKey platform],
                      r @ (if win32 then ''.exe'' else '''')]))"
proof -
  have g: "guessBinaryName f r = r" for f r
    by (auto simp: guessBinaryName_def Let_def split: option.splits dest: lookForRepoName_Some)
  show ?thesis
    by (simp add: g cachedBinaryPath_def getCachePath_def split: option.splits)
qed

section \<open>Paths: joining plain segments\<close>

lemma splitOn_not_Nil: "splitOn sep s \<noteq> []"
  by (induction s) (auto split: list.splits)

lemma splitOn_append_sep:
  "sep c \<Longrightarrow> splitOn sep (a @ c # b) = splitOn sep a @ splitOn sep b"
  by (induction a) (auto split: list.splits simp: splitOn_not_Nil)

lemma splitOn_no_sep: "\<not> list_ex sep s \<Longrightarrow> splitOn sep s = [s]"
  by (induction s) (auto split: list.splits)

lemma splitOn_pieces: "w \<in> set (splitOn sep s) \<Longrightarrow> \<not> list_ex sep w"
  by (induction s arbitrary: w) (auto split: list.splits if_splits)

lemma splitOn_joinSegments:
  "ss \<noteq> [] \<Longrightarrow> \<forall>s\<in>set ss. \<not> list_ex isSlash s \<Longrightarrow> splitOn isSlash (joinSegments ss) = ss"
proof (induction ss rule: joinSegments.induct)
  case 1
  then show ?case by simp
next
  case (2 s)
  then show ?case by (simp add: splitOn_no_sep)
next
  case (3 s t ss)
  have "splitOn isSlash (s @ CHR ''/'' # joinSegments (t # ss))
      = splitOn isSlash s @ splitOn isSlash (joinSegments (t # ss))"
    by (rule splitOn_append_sep) (simp add: isSlash_def)
  then show ?case using 3 by (simp add: splitOn_no_sep)
qed

lemma joinSegments_inject:
  assumes "xs \<noteq> []" "ys \<noteq> []"
    and "\<forall>s\<in>set xs. \<not> list_ex isSlash s" "\<forall>s\<in>set ys. \<not> list_ex isSlash s"
    and "joinSegments xs = joinSegments ys"
  shows "xs = ys"
  using assms by (metis splitOn_joinSegments)

lemma normalizeSegments_append:
  "normalizeSegments a res (xs @ ys) = normalizeSegments a (normalizeSegments a res xs) ys"
  by (induction xs arbitrary: res) auto

lemma normalizeSegments_plain:
  "\<forall>s\<in>set ss. plainSegment s \<Longrightarrow> normalizeSegments a res ss = res @ ss"
  by (induction ss arbitrary: res) (auto simp: plainSegment_def)

lemma normalizeSegments_no_slash:
  "\<forall>s\<in>set res. \<not> list_ex isSlash s \<Longrightarrow> \<forall>s\<in>set ss. \<not> list_ex isSlash s
   \<Longrightarrow> w \<in> set (normalizeSegments a res ss) \<Longrightarrow> \<not> list_ex isSlash w"
proof (induction ss arbitrary: res)
  case Nil
  then show ?case by simp
next
  case (Cons s ss)
  have bl: "\<forall>s\<in>set (butlast res). \<not> list_ex isSlash s"
    using Cons.prems(1) by (meson in_set_butlastD)
  have dd: "\<not> list_ex isSlash ''..''" by (simp add: isSlash_def)
  show ?case
    using Cons.prems Cons.IH [of res] Cons.IH [of "butlast res"] Cons.IH [of "res @ [''..'']"]
      Cons.IH [of "res @ [s]"] bl dd
    by (auto split: if_splits)
qed

lemma joinSegments_Nil_iff: "\<forall>s\<in>set ss. s \<noteq> [] \<Longrightarrow> joinSegments ss = [] \<longleftrightarrow> ss = []"
  by (induction ss rule: joinSegments.induct) auto

lemma last_joinSegments:
  "ss \<noteq> [] \<Longrightarrow> \<forall>s\<in>set ss. s \<noteq> [] \<Longrightarrow> last (joinSegments ss) = last (last ss)"
proof (induction ss rule: joinSegments.induct)
  case (3 s t ss)
  then have "joinSegments (t # ss) \<noteq> []"
    using joinSegments_Nil_iff [of "t # ss"] by simp
  then show ?case using 3 by simp
qed simp_all

lemma hd_joinSegments: "ss \<noteq> [] \<Longrightarrow> hd ss \<noteq> [] \<Longrightarrow> hd (joinSegments ss) = hd (hd ss)"
  by (induction ss rule: joinSegments.induct) auto

lemma joinSegments_append_ne:
  "ts \<noteq> [] \<Longrightarrow> \<forall>s\<in>set ts. s \<noteq> [] \<Longrightarrow> joinSegments (A @ ts) \<noteq> []"
proof (induction A rule: joinSegments.induct)
  case 1
  then show ?case by (simp add: joinSegments_Nil_iff)
next
  case (2 s)
  then show ?case by (cases ts) auto
next
  case (3 s t ss)
  then show ?case by simp
qed

lemma path_join_plain:
  "\<exists>pre A. (\<forall>s\<in>set A. \<not> list_ex isSlash s) \<and>
           (\<forall>ts. ts \<noteq> [] \<and> (\<forall>s\<in>set ts. plainSegment s)
               \<longrightarrow> path_join (c # ts) = pre @ joinSegments (A @ ts))"
proof (cases "c = []")
  case True
  have "path_join (c # ts) = [] @ joinSegments ([] @ ts)"
    if ts: "ts \<noteq> []" "\<forall>s\<in>set ts. plainSegment s" for ts
  proof -
    have ne: "\<forall>s\<in>set ts. s \<noteq> []" and ns: "\<forall>s\<in>set ts. \<not> list_ex isSlash s"
      using ts by (auto simp: plainSegment_def)
    have f: "filter (\<lambda>a. a \<noteq> []) (c # ts) = ts"
      using True ne by (simp add: filter_id_conv)
    have jne: "joinSegments ts \<noteq> []" using ts(1) ne by (simp add: joinSegments_Nil_iff)
    have h: "\<not> isSlash (hd (joinSegments ts))"
      using ts(1) ne ns hd_joinSegments [of ts]
      by (metis hd_in_set list.set_sel(1) list_ex_iff)
    have l: "\<not> isSlash (last (joinSegments ts))"
      using ts(1) ne ns last_joinSegments [of ts]
      by (metis last_in_set list_ex_iff)
    have sp: "splitOn isSlash (joinSegments ts) = ts"
      using ts(1) ns by (rule splitOn_joinSegments)
    have pj: "path_join (c # ts) = path_normalize (joinSegments ts)"
      unfolding path_join_def f Let_def using jne by simp
    show ?thesis
      unfolding pj using jne h l ts(2)
      by (simp add: path_normalize_def Let_def sp normalizeSegments_plain)
  qed
  then show ?thesis by (intro exI [of _ "[]"]) auto
next
  case False
  define abs where "abs = isSlash (hd c)"
  define A where "A = normalizeSegments (\<not> abs) [] (splitOn isSlash c)"
  define pre where "pre = (if abs then [CHR ''/''] else [])"
  have A_ns: "\<forall>s\<in>set A. \<not> list_ex isSlash s"
    unfolding A_def using normalizeSegments_no_slash [of "[]" "splitOn isSlash c"] splitOn_pieces
    by fastforce
  have "path_join (c # ts) = pre @ joinSegments (A @ ts)"
    if ts: "ts \<noteq> []" "\<forall>s\<in>set ts. plainSegment s" for ts
  proof -
    have ne: "\<forall>s\<in>set ts. s \<noteq> []" and ns: "\<forall>s\<in>set ts. \<not> list_ex isSlash s"
      using ts by (auto simp: plainSegment_def)
    obtain t ts' where tt: "ts = t # ts'" using ts(1) by (cases ts) auto
    have f: "filter (\<lambda>a. a \<noteq> []) (c # ts) = c # ts"
      using False ne by (simp add: filter_id_conv)
    have j: "joinSegments (c # ts) = c @ CHR ''/'' # joinSegments ts"
      unfolding tt by simp
    have jne: "joinSegments (c # ts) \<noteq> []" using False j by simp
    have h: "hd (joinSegments (c # ts)) = hd c" using False j by simp
    have l: "\<not> isSlash (last (joinSegments (c # ts)))"
    proof -
      have "joinSegments ts \<noteq> []" using ts(1) ne by (simp add: joinSegments_Nil_iff)
      then have "last (joinSegments (c # ts)) = last (last ts)"
        using j last_joinSegments [of ts] ts(1) ne by simp
      then show ?thesis using ts(1) ne ns by (metis last_in_set list_ex_iff)
    qed
    have sp: "splitOn isSlash (joinSegments (c # ts)) = splitOn isSlash c @ ts"
      unfolding j using splitOn_append_sep [of isSlash "CHR ''/''" c "joinSegments ts"]
        splitOn_joinSegments [OF ts(1) ns]
      by (simp add: isSlash_def)
    have n: "normalizeSegments (\<not> abs) [] (splitOn isSlash c @ ts) = A @ ts"
      by (simp add: normalizeSegments_append A_def normalizeSegments_plain ts(2))
    have rne: "joinSegments (A @ ts) \<noteq> []"
      using ts(1) ne by (rule joinSegments_append_ne)
    have pj: "path_join (c # ts) = path_normalize (joinSegments (c # ts))"
      unfolding path_join_def f Let_def using jne by simp
    show ?thesis
      unfolding pj using jne l rne
      by (simp add: path_normalize_def Let_def h sp n pre_def flip: abs_def)
  qed
  then show ?thesis using A_ns by blast
qed

lemma split_owner_repo:
  assumes "plainSegment ow" "plainSegment rn"
  shows "splitOn isSlash (ow @ ''/'' @ rn) = [ow, rn]"
proof -
  have "splitOn isSlash (ow @ CHR ''/'' # rn) = splitOn isSlash ow @ splitOn isSlash rn"
    by (rule splitOn_append_sep) (simp add: isSlash_def)
  then show ?thesis
    using assms by (simp add: plainSegment_def splitOn_no_sep)
qed

lemma getCachePath_plain:
  assumes "plainSegment ow" "plainSegment rn"
  shows "getCachePath c (ow @ ''/'' @ rn) v p = Inr (path_join [c, ow, rn, v, platformKey p])"
  using split_owner_repo [OF assms]
  by (simp add: getCachePath_def repoNameOf_def repoOwner_def)

section \<open>CacheManager.getCachePath\<close>

text \<open>
  C8. \<open>getCachePath\<close> is a function of the cache root and of the tuple (owner, repoName,
  version, platformKey), with platformKey the string \<open>os-arch\<close>: the same tuple always
  gives the same path. On valid tuples (each component a plain path segment) it is
  injective: two different tuples give two different paths.
\<close>

theorem getCachePath_injective:
  assumes "plainSegment o1" "plainSegment r1" "plainSegment v1" "plainSegment (platformKey p1)"
    and "plainSegment o2" "plainSegment r2" "plainSegment v2" "plainSegment (platformKey p2)"
    and "(o1, r1, v1, platformKey p1) \<noteq> (o2, r2, v2, platformKey p2)"
  shows "getCachePath c (o1 @ ''/'' @ r1) v1 p1 \<noteq> getCachePath c (o2 @ ''/'' @ r2) v2 p2
         \<and> getCachePath c (o1 @ ''/'' @ r1) v1 p1
             = Inr (path_join [c, o1, r1, v1, os p1 @ ''-'' @ arch p1])"
proof -
  let ?t1 = "[o1, r1, v1, platformKey p1]" and ?t2 = "[o2, r2, v2, platformKey p2]"
  obtain pre A where A: "\<forall>s\<in>set A. \<not> list_ex isSlash s"
    and pj: "\<And>ts. ts \<noteq> [] \<Longrightarrow> \<forall>s\<in>set ts. plainSegment s
               \<Longrightarrow> path_join (c # ts) = pre @ joinSegments (A @ ts)"
    using path_join_plain [of c] by blast
  have p1: "path_join (c # ?t1) = pre @ joinSegments (A @ ?t1)"
    by (rule pj) (use assms in auto)
  have p2: "path_join (c # ?t2) = pre @ joinSegments (A @ ?t2)"
    by (rule pj) (use assms in auto)
  have "path_join (c # ?t1) \<noteq> path_join (c # ?t2)"
  proof
    assume "path_join (c # ?t1) = path_join (c # ?t2)"
    then have "joinSegments (A @ ?t1) = joinSegments (A @ ?t2)"
      using p1 p2 by simp
    moreover have "\<forall>s\<in>set (A @ ?t1). \<not> list_ex isSlash s" "\<forall>s\<in>set (A @ ?t2). \<not> list_ex isSlash s"
      using A assms by (auto simp: plainSegment_def)
    ultimately have "A @ ?t1 = A @ ?t2"
      by (intro joinSegments_inject) auto
    then show False using assms(9) by simp
  qed
  moreover have "getCachePath c (o1 @ ''/'' @ r1) v1 p1 = Inr (path_join (c # ?t1))"
    by (rule getCachePath_plain) (use assms in auto)
  moreover have "getCachePath c (o2 @ ''/'' @ r2) v2 p2 = Inr (path_join (c # ?t2))"
    by (rule getCachePath_plain) (use assms in auto)
  ultimately show ?thesis
    by (simp add: platformKey_def)
qed

text \<open>Two versions of one repository on one platform get two different cache paths.\<close>

theorem getCachePath_injective_witness:
  "getCachePath ''/home/u/.cache/gpx'' (''BurntSushi'' @ ''/'' @ ''ripgrep'') ''14.1.0''
      \<lparr>os = ''linux'', arch = ''x86_64''\<rparr>
   \<noteq> getCachePath ''/home/u/.cache/gpx'' (''BurntSushi'' @ ''/'' @ ''ripgrep'') ''14.1.1''
      \<lparr>os = ''linux'', arch = ''x86_64''\<rparr>
   \<and> getCachePath ''/home/u/.cache/gpx'' (''BurntSushi'' @ ''/'' @ ''ripgrep'') ''14.1.0''
      \<lparr>os = ''linux'', arch = ''x86_64''\<rparr>
     = Inr ''/home/u/.cache/gpx/BurntSushi/ripgrep/14.1.0/linux-x86_64''"
proof -
  have v: "plainSegment ''BurntSushi''" "plainSegment ''ripgrep''" "plainSegment ''14.1.0''"
    "plainSegment ''14.1.1''" "plainSegment (platformKey \<lparr>os = ''linux'', arch = ''x86_64''\<rparr>)"
    by code_simp+
  have d: "(''BurntSushi'', ''ripgrep'', ''14.1.0'', platformKey \<lparr>os = ''linux'', arch = ''x86_64''\<rparr>)
      \<noteq> (''BurntSushi'', ''ripgrep'', ''14.1.1'', platformKey \<lparr>os = ''linux'', arch = ''x86_64''\<rparr>)"
    by simp
  have e: "path_join [''/home/u/.cache/gpx'', ''BurntSushi'', ''ripgrep'', ''14.1.0'',
      os \<lparr>os = ''linux'', arch = ''x86_64''\<rparr> @ ''-'' @ arch \<lparr>os = ''linux'', arch = ''x86_64''\<rparr>]
      = ''/home/u/.cache/gpx/BurntSushi/ripgrep/14.1.0/linux-x86_64''"
    by code_simp
  show ?thesis
    using getCachePath_injective [OF v(1) v(2) v(3) v(5) v(1) v(2) v(4) v(5) d, of "''/home/u/.cache/gpx''"]
    unfolding e by blast
qed

text \<open>
  The restriction to plain segments is needed: a version tag with a slash in it makes two
  different tuples share a path.
\<close>

lemma getCachePath_slash_collision:
  "getCachePath ''/c'' ''o/r'' ''v1/linux'' \<lparr>os = ''x'', arch = ''y''\<rparr>
   = getCachePath ''/c'' ''o/r'' ''v1'' \<lparr>os = ''linux/x'', arch = ''y''\<rparr>"
  by code_simp

section \<open>The file system primitives\<close>

lemma lookupFile_called [simp]: "lookupFile (called ev ok s) p = lookupFile s p"
  by (simp add: lookupFile_def called_def)

lemma pathExists_called [simp]: "pathExists (called ev ok s) p = pathExists s p"
  by (simp add: pathExists_def called_def lookupFile_def)

lemma fs_access_Inr:
  "fs_access p s = (Inr u, s1) \<Longrightarrow> pathExists s p \<and> (\<forall>q. lookupFile s1 q = lookupFile s q)
     \<and> (\<forall>q. pathExists s1 q = pathExists s q)"
  by (auto simp: fs_access_def split: if_splits)

lemma fs_readFile_Inr:
  "fs_readFile p s = (Inr d, s1) \<Longrightarrow> lookupFile s p = Some d \<and> (\<forall>q. lookupFile s1 q = lookupFile s q)
     \<and> (\<forall>q. pathExists s1 q = pathExists s q)"
  by (auto simp: fs_readFile_def split: option.splits if_splits)

section \<open>CacheManager.isCached\<close>

text \<open>
  C5. \<open>isCached\<close> returns true only if the metadata file of the slot exists and parses,
  and the binary file whose path the metadata holds exists; when the metadata is there
  and the binary it names is gone, the result is false.
\<close>

theorem isCached_double_check:
  "(fst (isCached cacheDir repo version platform s) = Inr True \<longrightarrow>
      (\<exists>cachePath metadata binaryPath.
          getCachePath cacheDir repo version platform = Inr cachePath
        \<and> lookupFile s (path_join [cachePath, ''metadata.json'']) = Some (Json metadata)
        \<and> jprop metadata ''binaryPath'' = Some (JStr binaryPath)
        \<and> pathExists s binaryPath))
   \<and> (\<forall>cachePath metadata binaryPath.
          getCachePath cacheDir repo version platform = Inr cachePath
        \<and> lookupFile s (path_join [cachePath, ''metadata.json'']) = Some (Json metadata)
        \<and> jprop metadata ''binaryPath'' = Some (JStr binaryPath)
        \<and> \<not> pathExists s binaryPath
        \<longrightarrow> fst (isCached cacheDir repo version platform s) = Inr False)"
proof (intro conjI impI allI)
  assume t: "fst (isCached cacheDir repo version platform s) = Inr True"
  then obtain cachePath where cp: "getCachePath cacheDir repo version platform = Inr cachePath"
    by (cases "getCachePath cacheDir repo version platform") (auto simp: isCached_def)
  let ?mp = "path_join [cachePath, ''metadata.json'']"
  obtain s1 where a1: "fs_access ?mp s = (Inr (), s1)"
    using t cp by (cases "fs_access ?mp s") (auto simp: isCached_def split: sum.splits)
  note f1 = fs_access_Inr [OF a1]
  obtain content s2 where r: "fs_readFile ?mp s1 = (Inr content, s2)"
    using t cp a1
    by (cases "fs_readFile ?mp s1")
       (auto simp: isCached_def getMetadata_def split: sum.splits jval.splits option.splits)
  note f2 = fs_readFile_Inr [OF r]
  obtain metadata where c: "content = Json metadata"
    using t cp a1 r
    by (cases content) (auto simp: isCached_def getMetadata_def JSON_parse_def)
  obtain binaryPath where bp: "jprop metadata ''binaryPath'' = Some (JStr binaryPath)"
    using t cp a1 r c
    by (auto simp: isCached_def getMetadata_def JSON_parse_def
        split: if_splits option.splits jval.splits)
  obtain s3 where a3: "fs_access binaryPath s2 = (Inr (), s3)"
    using t cp a1 r c bp
    by (cases "fs_access binaryPath s2")
       (auto simp: isCached_def getMetadata_def JSON_parse_def split: if_splits sum.splits)
  have "pathExists s binaryPath"
    using fs_access_Inr [OF a3] f1 f2 by simp
  moreover have "lookupFile s ?mp = Some (Json metadata)"
    using f1 f2 c by simp
  ultimately show "\<exists>cachePath metadata binaryPath.
          getCachePath cacheDir repo version platform = Inr cachePath
        \<and> lookupFile s (path_join [cachePath, ''metadata.json'']) = Some (Json metadata)
        \<and> jprop metadata ''binaryPath'' = Some (JStr binaryPath)
        \<and> pathExists s binaryPath"
    using cp bp by blast
next
  fix cachePath metadata binaryPath
  assume h: "getCachePath cacheDir repo version platform = Inr cachePath
        \<and> lookupFile s (path_join [cachePath, ''metadata.json'']) = Some (Json metadata)
        \<and> jprop metadata ''binaryPath'' = Some (JStr binaryPath)
        \<and> \<not> pathExists s binaryPath"
  then show "fst (isCached cacheDir repo version platform s) = Inr False"
    by (auto simp: isCached_def getMetadata_def JSON_parse_def fs_access_def fs_readFile_def Let_def
        split: if_splits sum.splits prod.splits option.splits jval.splits)
qed

text \<open>
  A slot whose metadata names a binary that was deleted behind the cache's back is not
  cached; with the binary in place it is.
\<close>

theorem isCached_double_check_witness:
  "fst (isCached ''/c'' ''o/r'' ''v1'' \<lparr>os = ''linux'', arch = ''x64''\<rparr>
      \<lparr>files = [(''/c/o/r/v1/linux-x64/metadata.json'',
                  Json (JObj [(''binaryPath'', JStr ''/c/o/r/v1/linux-x64/r'')]))],
       dirs = [], faults = [], trace = []\<rparr>) = Inr False
   \<and> fst (isCached ''/c'' ''o/r'' ''v1'' \<lparr>os = ''linux'', arch = ''x64''\<rparr>
      \<lparr>files = [(''/c/o/r/v1/linux-x64/metadata.json'',
                  Json (JObj [(''binaryPath'', JStr ''/c/o/r/v1/linux-x64/r'')])),
                (''/c/o/r/v1/linux-x64/r'', Text ''ELF'')],
       dirs = [], faults = [], trace = []\<rparr>) = Inr True
   \<and> (\<exists>cachePath metadata binaryPath.
          getCachePath ''/c'' ''o/r'' ''v1'' \<lparr>os = ''linux'', arch = ''x64''\<rparr> = Inr cachePath
        \<and> lookupFile
            \<lparr>files = [(''/c/o/r/v1/linux-x64/metadata.json'',
                  Json (JObj [(''binaryPath'', JStr ''/c/o/r/v1/linux-x64/r'')])),
                (''/c/o/r/v1/linux-x64/r'', Text ''ELF'')],
             dirs = [], faults = [], trace = []\<rparr>
            (path_join [cachePath, ''metadata.json'']) = Some (Json metadata)
        \<and> jprop metadata ''binaryPath'' = Some (JStr binaryPath)
        \<and> pathExists
            \<lparr>files = [(''/c/o/r/v1/linux-x64/metadata.json'',
                  Json (JObj [(''binaryPath'', JStr ''/c/o/r/v1/linux-x64/r'')])),
                (''/c/o/r/v1/linux-x64/r'', Text ''ELF'')],
             dirs = [], faults = [], trace = []\<rparr> binaryPath)"
proof -
  let ?p = "\<lparr>os = ''linux'', arch = ''x64''\<rparr>"
  let ?m = "JObj [(''binaryPath'', JStr ''/c/o/r/v1/linux-x64/r'')]"
  let ?gone = "\<lparr>files = [(''/c/o/r/v1/linux-x64/metadata.json'', Json ?m)],
       dirs = [], faults = [], trace = []\<rparr>"
  let ?there = "\<lparr>files = [(''/c/o/r/v1/linux-x64/metadata.json'', Json ?m),
                (''/c/o/r/v1/linux-x64/r'', Text ''ELF'')],
       dirs = [], faults = [], trace = []\<rparr>"
  have cp: "getCachePath ''/c'' ''o/r'' ''v1'' ?p = Inr ''/c/o/r/v1/linux-x64''"
    by code_simp
  have mp: "path_join [''/c/o/r/v1/linux-x64'', ''metadata.json'']
      = ''/c/o/r/v1/linux-x64/metadata.json''"
    by code_simp
  have pre: "getCachePath ''/c'' ''o/r'' ''v1'' ?p = Inr ''/c/o/r/v1/linux-x64''
      \<and> lookupFile ?gone (path_join [''/c/o/r/v1/linux-x64'', ''metadata.json'']) = Some (Json ?m)
      \<and> jprop ?m ''binaryPath'' = Some (JStr ''/c/o/r/v1/linux-x64/r'')
      \<and> \<not> pathExists ?gone ''/c/o/r/v1/linux-x64/r''"
    unfolding mp using cp by (simp add: lookupFile_def pathExists_def)
  have t: "fst (isCached ''/c'' ''o/r'' ''v1'' ?p ?there) = Inr True"
    by code_simp
  have "\<exists>cachePath metadata binaryPath.
          getCachePath ''/c'' ''o/r'' ''v1'' ?p = Inr cachePath
        \<and> lookupFile ?there (path_join [cachePath, ''metadata.json'']) = Some (Json metadata)
        \<and> jprop metadata ''binaryPath'' = Some (JStr binaryPath)
        \<and> pathExists ?there binaryPath"
    using isCached_double_check [of "''/c''" "''o/r''" "''v1''" ?p ?there] t by blast
  moreover have "fst (isCached ''/c'' ''o/r'' ''v1'' ?p ?gone) = Inr False"
    using isCached_double_check [of "''/c''" "''o/r''" "''v1''" ?p ?gone] pre by blast
  ultimately show ?thesis using t by blast
qed

section \<open>Downloader.downloadAsset\<close>

text \<open>
  C3 holds for the number of attempts and the waits, and for the cleanup when a partly
  written file is there. It fails when the attempts fail before the temporary file
  exists, as a refused or unanswered request does: with \<open>retries = 3\<close> and three such
  failures, \<open>downloadAsset\<close> waits 2 s and 4 s and raises the download error, but the
  \<open>unlink\<close> of the file that was never created raises inside the cleanup block, the
  \<open>rmdir\<close> after it is skipped, and the temporary directory stays.
\<close>

theorem downloadAsset_leaves_temp_directory:
  "downloadAsset 3 ''/tmp'' ''AbCdEf''
      \<lparr>name = ''rg.tar.gz'', browser_download_url = ''https://example.com/rg.tar.gz'',
         asset_size = 1, content_type = ''application/gzip''\<rparr>
      (\<lambda>k. FailsBeforeWrite)
      \<lparr>files = [], dirs = [''/tmp''], faults = [], trace = []\<rparr>
   = (Inl DownloadError, [2000, 4000],
      \<lparr>files = [], dirs = [''/tmp/gpx-AbCdEf'', ''/tmp''], faults = [],
         trace = [(Mkdtemp ''/tmp/gpx-'', True), (Unlink ''/tmp/gpx-AbCdEf/rg.tar.gz'', False)]\<rparr>)"
  by code_simp

text \<open>With a partly written file at each attempt the file and the directory are removed.\<close>

lemma downloadAsset_cleans_partial_file:
  "downloadAsset 3 ''/tmp'' ''AbCdEf''
      \<lparr>name = ''rg.tar.gz'', browser_download_url = ''https://example.com/rg.tar.gz'',
         asset_size = 1, content_type = ''application/gzip''\<rparr>
      (\<lambda>k. FailsAfterPartialWrite)
      \<lparr>files = [], dirs = [''/tmp''], faults = [], trace = []\<rparr>
   = (Inl DownloadError, [2000, 4000],
      \<lparr>files = [], dirs = [''/tmp''], faults = [],
         trace = [(Mkdtemp ''/tmp/gpx-'', True), (Unlink ''/tmp/gpx-AbCdEf/rg.tar.gz'', True),
                  (Rmdir ''/tmp/gpx-AbCdEf'', True)]\<rparr>)"
  by code_simp

text \<open>
  The waits of any run: after \<open>a\<close> failed attempts the loop sleeps
  \<open>2 ^ (a + 1)\<close>, \<open>2 ^ (a + 2)\<close>, ... seconds, and it never starts more than
  \<open>retries\<close> attempts.
\<close>

lemma downloadLoop_waits:
  "downloadLoop retries outcomes tempFile tempDir a ws s = (r, ws', s') \<Longrightarrow>
     \<exists>n. ws' = ws @ map (\<lambda>k. 2 ^ k * 1000) [Suc a..<Suc a + n]
        \<and> (n = 0 \<or> int (a + n) < retries)"
proof (induction retries outcomes tempFile tempDir a ws s rule: downloadLoop.induct)
  case (1 retries outcomes tempFile tempDir attempt waits s)
  show ?case
  proof (cases "int attempt < retries")
    case False
    then show ?thesis using "1.prems" by (intro exI [of _ 0]) simp
  next
    case True
    obtain res s1 where d: "downloadWithProgress (outcomes attempt) tempFile s = (res, s1)"
      by (cases "downloadWithProgress (outcomes attempt) tempFile s")
    show ?thesis
    proof (cases res)
      case (Inr u)
      then show ?thesis using "1.prems" True d by (intro exI [of _ 0]) simp
    next
      case (Inl e)
      show ?thesis
      proof (cases "int (Suc attempt) \<ge> retries")
        case True
        then show ?thesis
          using "1.prems" \<open>int attempt < retries\<close> d Inl by (intro exI [of _ 0]) simp
      next
        case False
        have rec: "downloadLoop retries outcomes tempFile tempDir (Suc attempt)
            (waits @ [2 ^ (Suc attempt) * 1000]) s1 = (r, ws', s')"
          using "1.prems" \<open>int attempt < retries\<close> d Inl False by simp
        obtain n where n: "ws' = (waits @ [2 ^ (Suc attempt) * 1000])
              @ map (\<lambda>k. 2 ^ k * 1000) [Suc (Suc attempt)..<Suc (Suc attempt) + n]"
            "n = 0 \<or> int (Suc attempt + n) < retries"
          using "1.IH" [OF \<open>int attempt < retries\<close> d [symmetric] Inl False rec] by blast
        have "[Suc attempt..<Suc attempt + Suc n]
            = Suc attempt # [Suc (Suc attempt)..<Suc (Suc attempt) + n]"
          by (simp add: upt_rec)
        then have "ws' = waits @ map (\<lambda>k. 2 ^ k * 1000) [Suc attempt..<Suc attempt + Suc n]"
          using n(1) by simp
        moreover have "int (attempt + Suc n) < retries"
          using n(2) False by auto
        ultimately show ?thesis by (intro exI [of _ "Suc n"]) simp
      qed
    qed
  qed
qed
section \<open>RegistryManager.save\<close>

lemma lookupFile_update:
  "lookupFile (s\<lparr>files := AList.update p d (files s)\<rparr>) q = (if q = p then Some d else lookupFile s q)"
  by (simp add: lookupFile_def update_conv')

lemma lookupFile_delete:
  "lookupFile (s\<lparr>files := AList.delete p (files s)\<rparr>) q = (if q = p then None else lookupFile s q)"
  by (simp add: lookupFile_def delete_conv')

lemma lookupFile_rename:
  "lookupFile (s\<lparr>files := AList.delete p (AList.update p' d (files s))\<rparr>) q
     = (if q = p then None else if q = p' then Some d else lookupFile s q)"
  by (simp add: lookupFile_def delete_conv' update_conv')

lemma lookupFile_dirs [simp]: "lookupFile (s\<lparr>dirs := ds\<rparr>) q = lookupFile s q"
  by (simp add: lookupFile_def)

lemma trace_called [simp]: "trace (called ev ok s) = trace s @ [(ev, ok)]"
  by (simp add: called_def)

lemma faults_called [simp]: "faults (called ev ok s) = tl (faults s)"
  by (simp add: called_def)

lemma dirs_called [simp]: "dirs (called ev ok s) = dirs s"
  by (simp add: called_def)

lemma files_called: "files (called ev ok s) = files s"
  by (simp add: called_def)

lemma nextFault_faultAt: "nextFault s = faultAt s 0"
  by (simp add: nextFault_def faultAt_def)

lemma faultAt_called [simp]: "faultAt (called ev ok s) n = faultAt s (Suc n)"
  by (simp add: faultAt_def drop_Suc)

lemma faultAt_files [simp]: "faultAt (s\<lparr>files := fs\<rparr>) n = faultAt s n"
  by (simp add: faultAt_def)

lemma faultAt_dirs [simp]: "faultAt (s\<lparr>dirs := ds\<rparr>) n = faultAt s n"
  by (simp add: faultAt_def)

lemma quietFrom_called [simp]: "quietFrom n (called ev ok s) = quietFrom (Suc n) s"
  by (simp add: quietFrom_def drop_Suc)

lemma quietFrom_files [simp]: "quietFrom n (s\<lparr>files := fs\<rparr>) = quietFrom n s"
  by (simp add: quietFrom_def)

lemma quietFrom_dirs [simp]: "quietFrom n (s\<lparr>dirs := ds\<rparr>) = quietFrom n s"
  by (simp add: quietFrom_def)

lemma quietFrom_mono: "quietFrom n s \<Longrightarrow> n \<le> k \<Longrightarrow> quietFrom k s"
proof -
  assume q: "quietFrom n s" and le: "n \<le> k"
  have "set (drop k (faults s)) \<subseteq> set (drop n (faults s))"
    using le by (rule set_drop_subset_set_drop)
  then show ?thesis using q by (auto simp: quietFrom_def list_all_iff)
qed

lemma quietFrom_faultAt: "quietFrom n s \<Longrightarrow> n \<le> k \<Longrightarrow> faultAt s k = Works"
proof -
  assume "quietFrom n s" "n \<le> k"
  then have q: "quietFrom k s" by (rule quietFrom_mono)
  show ?thesis
  proof (cases "drop k (faults s)")
    case Nil
    then show ?thesis by (simp add: faultAt_def)
  next
    case (Cons f fs)
    then show ?thesis using q by (simp add: faultAt_def quietFrom_def)
  qed
qed

lemma canWrite_called [simp]: "canWrite (called ev ok s) p = canWrite s p"
  by (simp add: canWrite_def)

lemma canWrite_files [simp]: "canWrite (s\<lparr>files := fs\<rparr>) p = canWrite s p"
  by (simp add: canWrite_def)

lemmas fs_ops = fs_access_def fs_readFile_def fs_writeFile_def fs_copyFile_def fs_rename_def
  fs_unlink_def fs_mkdir_def

subsection \<open>What a save does to the three files\<close>

lemma createBackup_files:
  "(\<forall>q. lookupFile (createBackup path s) q = lookupFile s q)
   \<or> (lookupFile s path \<noteq> None
       \<and> (\<forall>q. lookupFile (createBackup path s) q
             = (if q = path @ ''.backup'' then lookupFile s path else lookupFile s q)))
   \<or> (lookupFile s path \<noteq> None
       \<and> (\<forall>q. lookupFile (createBackup path s) q
             = (if q = path @ ''.backup'' then None else lookupFile s q)))"
  by (auto simp: createBackup_def fs_ops lookupFile_update lookupFile_delete
      split: option.splits fault.splits)

lemma cleanOldBackup_files:
  "q \<noteq> path @ ''.backup.old'' \<Longrightarrow> lookupFile (cleanOldBackup path s) q = lookupFile s q"
  by (auto simp: cleanOldBackup_def fs_ops lookupFile_delete split: option.splits)

lemma fs_writeFile_files:
  assumes "fs_writeFile p d s = (res, s')"
  shows "(\<forall>q. q \<noteq> p \<longrightarrow> lookupFile s' q = lookupFile s q)
       \<and> (\<forall>e. res = Inl e \<longrightarrow> lookupFile s' p = lookupFile s p)
       \<and> (\<forall>u. res = Inr u \<longrightarrow> lookupFile s' p = Some d \<or> lookupFile s' p = Some (Text []))"
  using assms by (auto simp: fs_writeFile_def lookupFile_update split: fault.splits if_splits)

lemma fs_readFile_files:
  assumes "fs_readFile p s = (res, s')"
  shows "(\<forall>q. lookupFile s' q = lookupFile s q) \<and> (\<forall>d. res = Inr d \<longrightarrow> lookupFile s p = Some d)"
  using assms by (auto simp: fs_readFile_def split: option.splits if_splits)

lemma fs_rename_files:
  assumes "fs_rename src dst s = (res, s')"
  shows "(\<forall>e. res = Inl e \<longrightarrow> (\<forall>q. lookupFile s' q = lookupFile s q))
       \<and> (\<forall>u. res = Inr u \<longrightarrow>
            (\<forall>q. lookupFile s' q
               = (if q = src then None else if q = dst then lookupFile s src else lookupFile s q)))"
  using assms by (auto simp: fs_rename_def lookupFile_rename split: option.splits if_splits)

lemma saveCommit_files:
  assumes "saveCommit path doc s = (res, s')"
  shows "(\<forall>u. res = Inr u \<longrightarrow>
            lookupFile s' path = Some (Json doc) \<and> lookupFile s' (path @ ''.tmp'') = None)
       \<and> (\<forall>e. res = Inl e \<longrightarrow> lookupFile s' path = lookupFile s path)
       \<and> lookupFile s' (path @ ''.backup'') = lookupFile s (path @ ''.backup'')"
proof -
  let ?tmp = "path @ ''.tmp''" and ?bak = "path @ ''.backup''"
  obtain r2 s2 where w: "fs_writeFile ?tmp (Json doc) s = (r2, s2)"
    by (cases "fs_writeFile ?tmp (Json doc) s")
  note fw = fs_writeFile_files [OF w]
  have w1: "lookupFile s2 path = lookupFile s path" "lookupFile s2 ?bak = lookupFile s ?bak"
    using fw by simp_all
  show ?thesis
  proof (cases r2)
    case (Inl e)
    then have "res = Inl e" "s' = s2"
      using assms w by (auto simp: saveCommit_def Let_def JSON_stringify_def)
    then show ?thesis using w1 by auto
  next
    case (Inr u)
    obtain r3 s3 where rd: "fs_readFile ?tmp s2 = (r3, s3)"
      by (cases "fs_readFile ?tmp s2")
    note fr = fs_readFile_files [OF rd]
    show ?thesis
    proof (cases r3)
      case (Inl e)
      then have "res = Inl e" "s' = s3"
        using assms w rd \<open>r2 = Inr u\<close>
        by (auto simp: saveCommit_def Let_def JSON_stringify_def)
      then show ?thesis using w1 fr by auto
    next
      case (Inr content)
      have c: "lookupFile s2 ?tmp = Some content" using fr Inr by simp
      show ?thesis
      proof (cases content)
        case (Text t)
        then have "res = Inl SyntaxError" "s' = s3"
          using assms w rd \<open>r2 = Inr u\<close> \<open>r3 = Inr content\<close>
          by (auto simp: saveCommit_def Let_def JSON_stringify_def JSON_parse_def)
        then show ?thesis using w1 fr by auto
      next
        case (Json v)
        then have v: "v = doc" using c fw \<open>r2 = Inr u\<close> by auto
        obtain r4 s4 where rn: "fs_rename ?tmp path s3 = (r4, s4)"
          by (cases "fs_rename ?tmp path s3")
        note fn = fs_rename_files [OF rn]
        show ?thesis
        proof (cases r4)
          case (Inl e)
          then have "res = Inl e" "s' = s4"
            using assms w rd rn \<open>r2 = Inr u\<close> \<open>r3 = Inr content\<close> Json
            by (auto simp: saveCommit_def Let_def JSON_stringify_def JSON_parse_def)
          then show ?thesis using w1 fr fn Inl by auto
        next
          case (Inr u4)
          then have r: "res = Inr ()" "s' = cleanOldBackup path s4"
            using assms w rd rn \<open>r2 = Inr u\<close> \<open>r3 = Inr content\<close> Json
            by (auto simp: saveCommit_def Let_def JSON_stringify_def JSON_parse_def)
          have k: "lookupFile s' q = lookupFile s4 q" if "q \<noteq> path @ ''.backup.old''" for q
            using cleanOldBackup_files [OF that, of s4] r by simp
          have "lookupFile s4 path = Some (Json doc)" "lookupFile s4 ?tmp = None"
            "lookupFile s4 ?bak = lookupFile s ?bak"
            using fn Inr fr c Json v w1 by simp_all
          then show ?thesis using r k [of path] k [of ?tmp] k [of ?bak] by auto
        qed
      qed
    qed
  qed
qed

lemma saveTry_files:
  assumes "saveTry path doc s = (res, s')"
  shows "(\<forall>u. res = Inr u \<longrightarrow>
            lookupFile s' path = Some (Json doc) \<and> lookupFile s' (path @ ''.tmp'') = None)
       \<and> (\<forall>e. res = Inl e \<longrightarrow> lookupFile s' path = lookupFile s path)
       \<and> (lookupFile s' (path @ ''.backup'') = lookupFile s (path @ ''.backup'')
          \<or> lookupFile s path \<noteq> None \<and> lookupFile s' (path @ ''.backup'') = lookupFile s path
          \<or> lookupFile s path \<noteq> None \<and> lookupFile s' (path @ ''.backup'') = None)"
proof -
  let ?bak = "path @ ''.backup''"
  define s1 where "s1 = createBackup path s"
  have b1: "lookupFile s1 path = lookupFile s path"
    using createBackup_files [of path s] unfolding s1_def by auto
  have b2: "lookupFile s1 ?bak = lookupFile s ?bak
          \<or> lookupFile s path \<noteq> None \<and> lookupFile s1 ?bak = lookupFile s path
          \<or> lookupFile s path \<noteq> None \<and> lookupFile s1 ?bak = None"
    using createBackup_files [of path s] unfolding s1_def by auto
  have "saveCommit path doc s1 = (res, s')"
    using assms by (simp add: saveTry_def s1_def)
  note c = saveCommit_files [OF this]
  show ?thesis using c b1 b2 by auto
qed

lemma fs_unlink_files:
  "lookupFile (snd (fs_unlink p s)) q = lookupFile s q \<or> q = p"
  by (auto simp: fs_unlink_def lookupFile_delete)

lemma fs_unlink_tmp:
  "lookupFile (snd (fs_unlink p s)) p = None \<or> last (trace (snd (fs_unlink p s))) = (Unlink p, False)"
  by (auto simp: fs_unlink_def lookupFile_delete)

lemma fs_mkdir_files [simp]: "lookupFile (snd (fs_mkdir d s)) q = lookupFile s q"
  by (auto simp: fs_mkdir_def)

lemma save_results:
  assumes "registry m = Some r" and "save now m s = (res, m', s')"
  shows "m' = m\<lparr>registry := Some (touch now r)\<rparr>"
  using assms by (auto simp: save_def Let_def split: prod.splits sum.splits)

lemma save_outcome:
  assumes "registry m = Some r" and "save now m s = (res, m', s')"
  shows "(res = Inr () \<longrightarrow>
            lookupFile s' (registryPath m)
              = Some (Json (registryToJson (store m) (touch now r)))
          \<and> lookupFile s' (registryPath m @ ''.tmp'') = None)
       \<and> (res \<noteq> Inr () \<longrightarrow> lookupFile s' (registryPath m) = lookupFile s (registryPath m))
       \<and> (res = Inl FailedToSaveRegistry \<longrightarrow>
            lookupFile s' (registryPath m @ ''.tmp'') = None
          \<or> last (trace s') = (Unlink (registryPath m @ ''.tmp''), False))
       \<and> (lookupFile s' (registryPath m @ ''.backup'') = lookupFile s (registryPath m @ ''.backup'')
          \<or> lookupFile s (registryPath m) \<noteq> None
            \<and> lookupFile s' (registryPath m @ ''.backup'') = lookupFile s (registryPath m)
          \<or> lookupFile s (registryPath m) \<noteq> None
            \<and> lookupFile s' (registryPath m @ ''.backup'') = None)
       \<and> (res = Inr () \<or> res = Inl FailedToSaveRegistry \<or> res = Inl IOError)"
proof -
  let ?path = "registryPath m"
  let ?doc = "registryToJson (store m) (touch now r)"
  obtain r1 s1 where mk: "fs_mkdir (path_dirname ?path) s = (r1, s1)"
    by (cases "fs_mkdir (path_dirname ?path) s")
  have s1: "lookupFile s1 q = lookupFile s q" for q
    using fs_mkdir_files [of "path_dirname ?path" s q] mk by simp
  show ?thesis
  proof (cases r1)
    case (Inl e)
    then have "res = Inl IOError" "s' = s1"
      using assms mk by (auto simp: save_def Let_def fs_mkdir_def split: if_splits)
    then show ?thesis using s1 by simp
  next
    case (Inr u)
    obtain r2 s2 where st: "saveTry ?path ?doc s1 = (r2, s2)"
      by (cases "saveTry ?path ?doc s1")
    show ?thesis
    proof (cases r2)
      case (Inr u2)
      then have "res = Inr ()" "s' = s2"
        using assms mk st \<open>r1 = Inr u\<close> by (auto simp: save_def Let_def)
      then show ?thesis
        using saveTry_files [OF st] Inr s1 by simp
    next
      case (Inl e)
      then have res: "res = Inl FailedToSaveRegistry" "s' = snd (fs_unlink (?path @ ''.tmp'') s2)"
        using assms mk st \<open>r1 = Inr u\<close> by (auto simp: save_def Let_def)
      have a: "lookupFile s' ?path = lookupFile s2 ?path"
        using fs_unlink_files [of "?path @ ''.tmp''" s2 ?path] res by simp
      have b: "lookupFile s' (?path @ ''.backup'') = lookupFile s2 (?path @ ''.backup'')"
        using fs_unlink_files [of "?path @ ''.tmp''" s2 "?path @ ''.backup''"] res by simp
      show ?thesis
        using saveTry_files [OF st] Inl s1 a b res(1)
          fs_unlink_tmp [of "?path @ ''.tmp''" s2] res(2)
        by simp
    qed
  qed
qed

subsection \<open>The order of the calls\<close>









subsection \<open>The backup, and a save that nothing disturbs\<close>

lemma fs_mkdir_ok:
  "faultAt s 0 = Works \<Longrightarrow> canMkdir s d \<Longrightarrow>
     fs_mkdir d s = (Inr (), called (Mkdir d) True (s\<lparr>dirs := List.insert d (dirs s)\<rparr>))"
  by (simp add: fs_mkdir_def nextFault_faultAt)



lemma fs_copyFile_dirs [simp]: "dirs (snd (fs_copyFile src dst s)) = dirs s"
  by (simp add: fs_copyFile_def split: option.splits fault.splits)

lemma fs_copyFile_quietFrom [simp]:
  "quietFrom n (snd (fs_copyFile src dst s)) = quietFrom (Suc n) s"
  by (simp add: fs_copyFile_def split: option.splits fault.splits)

lemma createBackup_dirs [simp]: "dirs (createBackup path s) = dirs s"
  by (simp add: createBackup_def fs_access_def split: prod.splits sum.splits)

lemma createBackup_quiet: "quietFrom 0 s \<Longrightarrow> quietFrom 0 (createBackup path s)"
  by (auto simp: createBackup_def fs_access_def intro: quietFrom_mono)

lemma saveCommit_quiet:
  assumes "quietFrom 0 s" and "canWrite s (path @ ''.tmp'')" and "canWrite s path"
  shows "\<exists>s'. saveCommit path doc s = (Inr (), s')"
proof -
  have f: "faultAt s 0 = Works" "faultAt s (Suc 0) = Works" "faultAt s (Suc (Suc 0)) = Works"
    using assms(1) by (simp_all add: quietFrom_faultAt)
  show ?thesis
    using assms(2,3) f
    by (simp add: saveCommit_def Let_def fs_writeFile_def fs_readFile_def fs_rename_def
        nextFault_faultAt lookupFile_update JSON_stringify_def JSON_parse_def)
qed

lemma save_quiet:
  assumes reg: "registry m = Some r" and q: "quiet s" and c: "canSave s (registryPath m)"
  shows "\<exists>s'. save now m s = (Inr (), m\<lparr>registry := Some (touch now r)\<rparr>, s')"
proof -
  let ?path = "registryPath m"
  let ?dir = "path_dirname ?path"
  let ?doc = "registryToJson (store m) (touch now r)"
  define s1 where "s1 = called (Mkdir ?dir) True (s\<lparr>dirs := List.insert ?dir (dirs s)\<rparr>)"
  have q0: "quietFrom 0 s" using q by (simp add: quiet_def)
  have mk: "fs_mkdir ?dir s = (Inr (), s1)"
    unfolding s1_def using c q0
    by (intro fs_mkdir_ok) (simp_all add: canSave_def Let_def quietFrom_faultAt)
  have q1: "quietFrom 0 s1"
    unfolding s1_def using q0 by (auto intro: quietFrom_mono)
  have w1: "canWrite s1 ?path" "canWrite s1 (?path @ ''.tmp'')"
    using c by (simp_all add: s1_def canSave_def Let_def canWrite_def)
  have q2: "quietFrom 0 (createBackup ?path s1)" using q1 by (rule createBackup_quiet)
  have w2: "canWrite (createBackup ?path s1) (?path @ ''.tmp'')"
    "canWrite (createBackup ?path s1) ?path"
    using w1 by (simp_all add: canWrite_def)
  obtain s2 where "saveCommit ?path ?doc (createBackup ?path s1) = (Inr (), s2)"
    using saveCommit_quiet [OF q2 w2] by blast
  then have "save now m s = (Inr (), m\<lparr>registry := Some (touch now r)\<rparr>, s2)"
    using reg mk by (simp add: save_def saveTry_def Let_def)
  then show ?thesis by blast
qed



subsection \<open>The claim\<close>




text \<open>
  A write that reports success and leaves a truncated temporary file is caught by the
  re-parse: \<open>save\<close> raises, \<open>registry.json\<close> is untouched and the temporary file
  is removed.
\<close>

lemma save_garbled_write:
  "(case save ''2024-01-02''
          \<lparr>registryPath = ''/c/registry.json'',
             registry = Some \<lparr>reg_members = [(''version'', JStr ''1.0''), (''entries'', JObj []),
                                              (''lastUpdated'', JStr ''2024-01-01'')],
                              reg_entries = Some [], reg_proto = None\<rparr>,
             store = (\<lambda>a. JNull), nextAddr = 0\<rparr>
          \<lparr>files = [(''/c/registry.json'', Json (JStr ''current''))],
             dirs = [''/c''], faults = [Works, Works, Works, Garbles], trace = []\<rparr> of
      (res, m', s') \<Rightarrow> (res, files s'))
   = (Inl FailedToSaveRegistry,
      [(''/c/registry.json'', Json (JStr ''current'')),
       (''/c/registry.json.backup'', Json (JStr ''current''))])"
  by code_simp

text \<open>
  A directory where the temporary file should go: no call is disturbed, and \<open>save\<close>
  raises all the same; \<open>registry.json\<close> is untouched.
\<close>

lemma save_blocked_by_directory:
  "(case save ''2024-01-02''
          \<lparr>registryPath = ''/c/registry.json'',
             registry = Some \<lparr>reg_members = [(''version'', JStr ''1.0''), (''entries'', JObj []),
                                              (''lastUpdated'', JStr ''2024-01-01'')],
                              reg_entries = Some [], reg_proto = None\<rparr>,
             store = (\<lambda>a. JNull), nextAddr = 0\<rparr>
          \<lparr>files = [(''/c/registry.json'', Json (JStr ''current''))],
             dirs = [''/c'', ''/c/registry.json.tmp''], faults = [], trace = []\<rparr> of
      (res, m', s') \<Rightarrow> (res, lookupFile s' ''/c/registry.json''))
   = (Inl FailedToSaveRegistry, Some (Json (JStr ''current'')))"
  by code_simp
section \<open>RegistryManager.load\<close>

lemma load_loaded: "registry m = Some r \<Longrightarrow> load now m s = (Inr r, m, s)"
  by (simp add: load_def)

subsection \<open>From a document to the registry in memory and back\<close>

lemma allocEntries_frame:
  "allocEntries kvs m = (ps, m') \<Longrightarrow> registryPath m' = registryPath m \<and> registry m' = registry m"
  by (induction kvs arbitrary: m ps m') (auto simp: Let_def split: prod.splits)

lemma allocEntries_store:
  "allocEntries kvs m = (ps, m') \<Longrightarrow>
     map (\<lambda>(k, a). (k, store m' a)) ps = kvs
   \<and> (\<forall>a < nextAddr m. store m' a = store m a)
   \<and> nextAddr m \<le> nextAddr m'"
proof (induction kvs arbitrary: m ps m')
  case Nil
  then show ?case by simp
next
  case (Cons kv kvs)
  obtain k v where kv: "kv = (k, v)" by (cases kv)
  let ?m1 = "m\<lparr>store := (store m)(nextAddr m := v), nextAddr := Suc (nextAddr m)\<rparr>"
  obtain ps1 m1 where a: "allocEntries kvs ?m1 = (ps1, m1)"
    by (cases "allocEntries kvs ?m1")
  have r: "ps = (k, nextAddr m) # ps1" "m' = m1"
    using Cons.prems a by (simp_all add: kv Let_def)
  note ih = Cons.IH [OF a]
  have i1: "map (\<lambda>(k, a). (k, store m1 a)) ps1 = kvs" using ih by blast
  have i2: "store m1 b = store ?m1 b" if "b < Suc (nextAddr m)" for b
    using ih that by simp
  have i3: "Suc (nextAddr m) \<le> nextAddr m1" using ih by simp
  have "store m1 (nextAddr m) = v" using i2 [of "nextAddr m"] by simp
  moreover have "store m1 b = store m b" if "b < nextAddr m" for b
    using i2 [of b] that by simp
  ultimately show ?case using i1 i3 by (simp add: r kv)
qed

lemma registryOfJson_frame:
  "registryOfJson j m = (r, m') \<Longrightarrow> registryPath m' = registryPath m \<and> registry m' = registry m"
  by (auto simp: registryOfJson_def Let_def split: option.splits jval.splits prod.splits
      dest: allocEntries_frame)

lemma isValidRegistry_cases:
  assumes "isValidRegistry j"
  obtains kvs where "j = JObj kvs" "map_of kvs ''entries'' = Some JNull"
  | kvs es where "j = JObj kvs" "map_of kvs ''entries'' = Some (JObj es)"
proof (cases j)
  case (JObj kvs)
  have t: "typeof (map_of kvs ''entries'') = TObject"
    using assms by (simp add: isValidRegistry_def JObj)
  show ?thesis
  proof (cases "map_of kvs ''entries''")
    case None
    then show ?thesis using t by simp
  next
    case (Some v)
    then show ?thesis using t JObj that by (cases v) simp_all
  qed
qed (use assms in \<open>simp_all add: isValidRegistry_def\<close>)

lemma registryOfJson_roundtrip:
  assumes v: "isValidRegistry j" and d: "registryOfJson j m = (r, m')"
  shows "registryToJson (store m') r = j"
    and "registryToJson (store m') (touch now r) = withLastUpdated now j"
    and "(reg_entries r = None) = (jprop j ''entries'' = Some JNull)"
proof -
  have "registryToJson (store m') r = j
      \<and> registryToJson (store m') (touch now r) = withLastUpdated now j
      \<and> (reg_entries r = None) = (jprop j ''entries'' = Some JNull)"
    using v
  proof (cases rule: isValidRegistry_cases)
    case (1 kvs)
    have r: "r = \<lparr>reg_members = kvs, reg_entries = None, reg_proto = None\<rparr>"
      using d 1 by (simp add: registryOfJson_def)
    have u: "map_of (AList.update ''lastUpdated'' (JStr now) kvs) ''entries'' = Some JNull"
      using 1 by (simp add: update_conv')
    show ?thesis
      using 1 u by (simp add: r registryToJson_def touch_def withLastUpdated_def update_triv)
  next
    case (2 kvs es)
    obtain ps where a: "allocEntries es m = (ps, m')"
      and r: "r = \<lparr>reg_members = kvs, reg_entries = Some ps, reg_proto = None\<rparr>"
      using d 2 by (auto simp: registryOfJson_def Let_def split: prod.splits)
    have e: "entriesToJson (store m') ps = JObj es"
      using allocEntries_store [OF a] by (simp add: entriesToJson_def)
    have u: "map_of (AList.update ''lastUpdated'' (JStr now) kvs) ''entries'' = Some (JObj es)"
      using 2 by (simp add: update_conv')
    show ?thesis
      using 2 u e by (simp add: r registryToJson_def touch_def withLastUpdated_def update_triv)
  qed
  then show "registryToJson (store m') r = j"
    and "registryToJson (store m') (touch now r) = withLastUpdated now j"
    and "(reg_entries r = None) = (jprop j ''entries'' = Some JNull)"
    by blast+
qed

lemma touch_createEmptyRegistry: "touch now (createEmptyRegistry now) = createEmptyRegistry now"
  by (simp add: touch_def createEmptyRegistry_def)

lemma registryToJson_createEmptyRegistry:
  "registryToJson st (createEmptyRegistry now)
     = JObj [(''version'', JStr ''1.0''), (''entries'', JObj []), (''lastUpdated'', JStr now)]"
  by (simp add: registryToJson_def createEmptyRegistry_def entriesToJson_def)

subsection \<open>Reading a document\<close>

lemma readDocument_state: "\<exists>ok. snd (readDocument path s) = called (ReadFile path) ok s"
  by (auto simp: readDocument_def fs_readFile_def split: option.splits)

lemma readDocument_props:
  assumes "readDocument path s = (res, s')"
  shows "(\<forall>j. res = Inr j \<longrightarrow> lookupFile s path = Some (Json j))
       \<and> (\<forall>j. faultAt s 0 \<noteq> Fails \<and> lookupFile s path = Some (Json j) \<longrightarrow> res = Inr j)"
  using assms
  by (auto simp: readDocument_def fs_readFile_def JSON_parse_def nextFault_faultAt
      split: option.splits if_splits filedata.splits)

lemma validDocument_lookup:
  "validDocument s p = Some j \<longleftrightarrow> lookupFile s p = Some (Json j) \<and> isValidRegistry j"
  by (auto simp: validDocument_def split: option.splits filedata.splits)

lemma readDocument_validD:
  assumes "readDocument path s = (res, s')"
  shows "res = Inr j \<Longrightarrow> isValidRegistry j \<Longrightarrow> validDocument s path = Some j"
    and "faultAt s 0 \<noteq> Fails \<Longrightarrow> validDocument s path = Some j \<Longrightarrow> res = Inr j"
proof -
  note p = readDocument_props [OF assms]
  show "validDocument s path = Some j" if "res = Inr j" "isValidRegistry j"
  proof -
    have "lookupFile s path = Some (Json j)" using p that(1) by blast
    then show ?thesis using that(2) by (simp add: validDocument_lookup)
  qed
  show "res = Inr j" if "faultAt s 0 \<noteq> Fails" "validDocument s path = Some j"
  proof -
    have "lookupFile s path = Some (Json j)" using that(2) by (simp add: validDocument_lookup)
    then show ?thesis using p that(1) by blast
  qed
qed

lemma validDocument_called [simp]: "validDocument (called ev ok s) p = validDocument s p"
  by (simp add: validDocument_def)

lemma canSave_called [simp]: "canSave (called ev ok s) p = canSave s p"
  by (simp add: canSave_def canMkdir_def canWrite_def underFile_def Let_def files_called)

lemma quiet_called: "quiet s \<Longrightarrow> quiet (called ev ok s)"
  by (auto simp: quiet_def intro: quietFrom_mono)

subsection \<open>The catch branch\<close>

lemma restoreBackup_path:
  assumes "restoreBackup now m s = (ro, m1, s1)"
  shows "registryPath m1 = registryPath m" and "ro = Some r \<Longrightarrow> registry m1 = Some r"
proof -
  let ?bak = "registryPath m @ ''.backup''"
  obtain rd sd where rd: "readDocument ?bak s = (rd, sd)"
    by (cases "readDocument ?bak s")
  have "registryPath m1 = registryPath m \<and> (ro = Some r \<longrightarrow> registry m1 = Some r)"
  proof (cases "\<exists>j. rd = Inr j \<and> isValidRegistry j")
    case False
    then have "ro = None" "m1 = m"
      using assms rd by (auto simp: restoreBackup_def split: sum.splits if_splits)
    then show ?thesis by simp
  next
    case True
    then obtain j where j: "rd = Inr j" "isValidRegistry j" by blast
    obtain r' mj where d: "registryOfJson j m = (r', mj)" by (cases "registryOfJson j m")
    let ?m2 = "mj\<lparr>registry := Some r'\<rparr>"
    obtain rs m3 s3 where sv: "save now ?m2 sd = (rs, m3, s3)"
      by (cases "save now ?m2 sd")
    have reg2: "registry ?m2 = Some r'" by simp
    have m3: "m3 = ?m2\<lparr>registry := Some (touch now r')\<rparr>"
      by (rule save_results [OF reg2 sv])
    have pm: "registryPath mj = registryPath m"
      using registryOfJson_frame [OF d] by (rule conjunct1)
    have ro: "m1 = m3" "ro = (case rs of Inl e \<Rightarrow> None | Inr u \<Rightarrow> registry m3)"
      using assms rd j d sv by (auto simp: restoreBackup_def split: sum.splits)
    show ?thesis
      using ro pm by (cases rs) (simp_all add: m3)
  qed
  then show "registryPath m1 = registryPath m" and "ro = Some r \<Longrightarrow> registry m1 = Some r"
    by blast+
qed

lemma restoreBackup_quiet:
  assumes rb: "restoreBackup now m s = (ro, m1, s1)"
    and q: "quiet s" and c: "canSave s (registryPath m)"
  shows "validDocument s (registryPath m @ ''.backup'') = None
           \<Longrightarrow> ro = None \<and> m1 = m \<and> quiet s1 \<and> canSave s1 (registryPath m)"
    and "validDocument s (registryPath m @ ''.backup'') = Some j
           \<Longrightarrow> \<exists>r. ro = Some r \<and> registryToJson (store m1) r = withLastUpdated now j
                 \<and> lookupFile s1 (registryPath m) = Some (Json (withLastUpdated now j))"
proof -
  let ?path = "registryPath m" and ?bak = "registryPath m @ ''.backup''"
  obtain rd sd where rd: "readDocument ?bak s = (rd, sd)"
    by (cases "readDocument ?bak s")
  obtain ok where sd: "sd = called (ReadFile ?bak) ok s"
    using readDocument_state [of ?bak s] rd by auto
  have qd: "quiet sd" unfolding sd using q by (rule quiet_called)
  have cd: "canSave sd ?path" unfolding sd using c by simp
  have nx: "faultAt s 0 \<noteq> Fails"
    using q by (simp add: quiet_def quietFrom_faultAt)
  show "ro = None \<and> m1 = m \<and> quiet s1 \<and> canSave s1 ?path" if nb: "validDocument s ?bak = None"
  proof -
    have "\<not> isValidRegistry j'" if rj: "rd = Inr j'" for j'
      using readDocument_validD(1) [OF rd rj] nb by auto
    then have "ro = None" "m1 = m" "s1 = sd"
      using rb rd by (auto simp: restoreBackup_def split: sum.splits if_splits)
    then show ?thesis using qd cd by simp
  qed
  show "\<exists>r. ro = Some r \<and> registryToJson (store m1) r = withLastUpdated now j
          \<and> lookupFile s1 ?path = Some (Json (withLastUpdated now j))"
    if vb: "validDocument s ?bak = Some j"
  proof -
    have rj: "rd = Inr j" by (rule readDocument_validD(2) [OF rd nx vb])
    have vj: "isValidRegistry j" using vb by (simp add: validDocument_lookup)
    obtain r' mj where d: "registryOfJson j m = (r', mj)" by (cases "registryOfJson j m")
    let ?m2 = "mj\<lparr>registry := Some r'\<rparr>"
    have reg2: "registry ?m2 = Some r'" by simp
    have pm: "registryPath ?m2 = ?path"
      using registryOfJson_frame [OF d] by simp
    have c2: "canSave sd (registryPath ?m2)" using cd pm by simp
    obtain s3 where sv: "save now ?m2 sd = (Inr (), ?m2\<lparr>registry := Some (touch now r')\<rparr>, s3)"
      using save_quiet [OF reg2 qd c2, of now] by blast
    have doc: "registryToJson (store mj) (touch now r') = withLastUpdated now j"
      by (rule registryOfJson_roundtrip(2) [OF vj d])
    have "lookupFile s3 (registryPath ?m2) = Some (Json (registryToJson (store ?m2) (touch now r')))"
      using save_outcome [OF reg2 sv] by blast
    then have f: "lookupFile s3 ?path = Some (Json (withLastUpdated now j))"
      using pm doc by simp
    have "ro = Some (touch now r')" "m1 = ?m2\<lparr>registry := Some (touch now r')\<rparr>" "s1 = s3"
      using rb rd rj vj d sv by (auto simp: restoreBackup_def)
    then show ?thesis using f doc by simp
  qed
qed

lemma recover_props:
  assumes "recover now m s = (res, m', s')"
  shows "registryPath m' = registryPath m"
    and "res = Inl e \<Longrightarrow> e = FailedToSaveRegistry \<or> e = IOError"
    and "res = Inr r \<Longrightarrow> registry m' = Some r"
proof -
  obtain ro m1 s1 where rb: "restoreBackup now m s = (ro, m1, s1)"
    by (cases "restoreBackup now m s") auto
  have pm1: "registryPath m1 = registryPath m" by (rule restoreBackup_path(1) [OF rb])
  have "registryPath m' = registryPath m
      \<and> (res = Inl e \<longrightarrow> e = FailedToSaveRegistry \<or> e = IOError)
      \<and> (res = Inr r \<longrightarrow> registry m' = Some r)"
  proof (cases ro)
    case (Some r')
    then have "res = Inr r'" "m' = m1"
      using assms rb by (auto simp: recover_def)
    then show ?thesis using pm1 restoreBackup_path(2) [OF rb Some] by simp
  next
    case None
    let ?e = "createEmptyRegistry now"
    let ?m2 = "m1\<lparr>registry := Some ?e\<rparr>"
    obtain rs m3 s3 where sv: "save now ?m2 s1 = (rs, m3, s3)"
      by (cases "save now ?m2 s1")
    have reg2: "registry ?m2 = Some ?e" by simp
    have m3: "m3 = ?m2\<lparr>registry := Some ?e\<rparr>"
      using save_results [OF reg2 sv] by (simp add: touch_createEmptyRegistry)
    have rs: "rs = Inr () \<or> rs = Inl FailedToSaveRegistry \<or> rs = Inl IOError"
      using save_outcome [OF reg2 sv] by (elim conjE)
    have r: "res = (case rs of Inl e \<Rightarrow> Inl e | Inr u \<Rightarrow> Inr ?e)" "m' = m3"
      using assms rb None sv m3 by (auto simp: recover_def Let_def split: sum.splits)
    show ?thesis
      using rs r pm1 by (auto simp: m3)
  qed
  then show "registryPath m' = registryPath m"
    and "res = Inl e \<Longrightarrow> e = FailedToSaveRegistry \<or> e = IOError"
    and "res = Inr r \<Longrightarrow> registry m' = Some r"
    by blast+
qed

lemma recover_quiet:
  assumes rc: "recover now m s = (res, m', s')"
    and q: "quiet s" and c: "canSave s (registryPath m)"
  shows "validDocument s (registryPath m @ ''.backup'') = Some j
           \<Longrightarrow> \<exists>r. res = Inr r \<and> registryToJson (store m') r = withLastUpdated now j
                 \<and> lookupFile s' (registryPath m) = Some (Json (withLastUpdated now j))"
    and "validDocument s (registryPath m @ ''.backup'') = None
           \<Longrightarrow> res = Inr (createEmptyRegistry now)
             \<and> lookupFile s' (registryPath m)
                 = Some (Json (JObj [(''version'', JStr ''1.0''), (''entries'', JObj []),
                                     (''lastUpdated'', JStr now)]))"
proof -
  let ?path = "registryPath m" and ?bak = "registryPath m @ ''.backup''"
  obtain ro m1 s1 where rb: "restoreBackup now m s = (ro, m1, s1)"
    by (cases "restoreBackup now m s") auto
  show "\<exists>r. res = Inr r \<and> registryToJson (store m') r = withLastUpdated now j
          \<and> lookupFile s' ?path = Some (Json (withLastUpdated now j))"
    if vb: "validDocument s ?bak = Some j"
  proof -
    obtain r where r: "ro = Some r" "registryToJson (store m1) r = withLastUpdated now j"
      "lookupFile s1 ?path = Some (Json (withLastUpdated now j))"
      using restoreBackup_quiet(2) [OF rb q c vb] by blast
    have "res = Inr r" "m' = m1" "s' = s1"
      using rc rb r(1) by (simp_all add: recover_def)
    then show ?thesis using r by simp
  qed
  show "res = Inr (createEmptyRegistry now)
      \<and> lookupFile s' ?path
          = Some (Json (JObj [(''version'', JStr ''1.0''), (''entries'', JObj []),
                              (''lastUpdated'', JStr now)]))"
    if nb: "validDocument s ?bak = None"
  proof -
    let ?e = "createEmptyRegistry now"
    let ?m2 = "m\<lparr>registry := Some ?e\<rparr>"
    have ro: "ro = None" "m1 = m" "quiet s1" "canSave s1 ?path"
      using restoreBackup_quiet(1) [OF rb q c nb] by simp_all
    have reg2: "registry ?m2 = Some ?e" by simp
    have c2: "canSave s1 (registryPath ?m2)" using ro(4) by simp
    obtain s3 where sv: "save now ?m2 s1 = (Inr (), ?m2\<lparr>registry := Some ?e\<rparr>, s3)"
      using save_quiet [OF reg2 ro(3) c2, of now] by (auto simp: touch_createEmptyRegistry)
    have r: "res = Inr ?e" "s' = s3"
      using rc rb ro(1,2) sv by (auto simp: recover_def Let_def)
    have "lookupFile s3 (registryPath ?m2) = Some (Json (registryToJson (store ?m2) (touch now ?e)))"
      using save_outcome [OF reg2 sv] by blast
    then show ?thesis
      using r by (simp add: touch_createEmptyRegistry registryToJson_createEmptyRegistry)
  qed
qed

subsection \<open>load\<close>

lemma loadTry_state: "\<exists>ok. snd (snd (loadTry m s)) = called (ReadFile (registryPath m)) ok s"
proof -
  obtain ok where "snd (readDocument (registryPath m) s) = called (ReadFile (registryPath m)) ok s"
    using readDocument_state by blast
  then show ?thesis
    by (auto simp: loadTry_def Let_def split: prod.splits sum.splits)
qed

lemma loadTry_valid:
  assumes f: "faultAt s 0 \<noteq> Fails" and v: "validDocument s (registryPath m) = Some j"
  obtains r m1 s1 where "loadTry m s = (Inr r, m1, s1)" and "registry m1 = Some r"
    and "registryToJson (store m1) r = j"
    and "(reg_entries r = None) = (jprop j ''entries'' = Some JNull)"
proof -
  obtain rd sd where rd: "readDocument (registryPath m) s = (rd, sd)"
    by (cases "readDocument (registryPath m) s")
  have rj: "rd = Inr j" by (rule readDocument_validD(2) [OF rd f v])
  have vj: "isValidRegistry j" using v by (simp add: validDocument_lookup)
  obtain r mj where d: "registryOfJson j m = (r, mj)" by (cases "registryOfJson j m")
  let ?m1 = "mj\<lparr>registry := Some r\<rparr>"
  have a: "loadTry m s = (Inr r, ?m1, sd)"
    using rd rj vj d by (simp add: loadTry_def)
  have b: "registry ?m1 = Some r" by simp
  have c: "registryToJson (store ?m1) r = j"
    using registryOfJson_roundtrip(1) [OF vj d] by simp
  have e: "(reg_entries r = None) = (jprop j ''entries'' = Some JNull)"
    by (rule registryOfJson_roundtrip(3) [OF vj d])
  show ?thesis by (rule that [OF a b c e])
qed

lemma loadTry_Inr:
  assumes "loadTry m s = (Inr r, m1, s1)"
  shows "registry m1 = Some r"
  using assms
  by (auto simp: loadTry_def Let_def split: prod.splits sum.splits if_splits)

lemma loadTry_invalid:
  assumes "validDocument s (registryPath m) = None"
  shows "\<exists>e. fst (loadTry m s) = Inl e \<and> fst (snd (loadTry m s)) = m"
proof -
  obtain rd sd where rd: "readDocument (registryPath m) s = (rd, sd)"
    by (cases "readDocument (registryPath m) s")
  have "\<not> isValidRegistry j" if rj: "rd = Inr j" for j
    using readDocument_validD(1) [OF rd rj] assms by auto
  then show ?thesis
    using rd by (cases rd) (auto simp: loadTry_def)
qed

lemma loadTry_Inl:
  assumes "loadTry m s = (Inl e, m1, s1)"
  shows "m1 = m"
  using assms
  by (auto simp: loadTry_def Let_def split: prod.splits sum.splits if_splits)

lemma load_outcome:
  assumes reg: "registry m = None" and ld: "load now m s = (res, m', s')"
  shows "res = Inl e \<Longrightarrow> e = FailedToSaveRegistry \<or> e = IOError"
    and "res = Inr r \<Longrightarrow> registry m' = Some r"
    and "faultAt s 0 \<noteq> Fails \<Longrightarrow> validDocument s (registryPath m) = Some j
           \<Longrightarrow> (\<exists>r. res = Inr r \<and> registryToJson (store m') r = j
                   \<and> (reg_entries r = None) = (jprop j ''entries'' = Some JNull))
               \<and> files s' = files s \<and> dirs s' = dirs s"
    and "quiet s \<Longrightarrow> canSave s (registryPath m) \<Longrightarrow> validDocument s (registryPath m) = None
           \<Longrightarrow> validDocument s (registryPath m @ ''.backup'') = Some j
           \<Longrightarrow> (\<exists>r. res = Inr r \<and> registryToJson (store m') r = withLastUpdated now j)
               \<and> lookupFile s' (registryPath m) = Some (Json (withLastUpdated now j))"
    and "quiet s \<Longrightarrow> canSave s (registryPath m) \<Longrightarrow> validDocument s (registryPath m) = None
           \<Longrightarrow> validDocument s (registryPath m @ ''.backup'') = None
           \<Longrightarrow> res = Inr (createEmptyRegistry now)
               \<and> lookupFile s' (registryPath m)
                   = Some (Json (JObj [(''version'', JStr ''1.0''), (''entries'', JObj []),
                                       (''lastUpdated'', JStr now)]))"
proof -
  let ?path = "registryPath m" and ?bak = "registryPath m @ ''.backup''"
  obtain rt m1 s1 where lt: "loadTry m s = (rt, m1, s1)"
    by (cases "loadTry m s") auto
  obtain ok where s1: "s1 = called (ReadFile ?path) ok s"
    using loadTry_state [of m s] lt by auto
  have rc: "recover now m s1 = (res, m', s')" if "rt = Inl e0" for e0
  proof -
    have "m1 = m" using lt that by (auto dest: loadTry_Inl)
    then show ?thesis using reg ld lt that by (simp add: load_def)
  qed
  show "e = FailedToSaveRegistry \<or> e = IOError" if r: "res = Inl e"
  proof (cases rt)
    case (Inl e0)
    show ?thesis by (rule recover_props(2) [OF rc [OF Inl] r])
  next
    case (Inr r0)
    then show ?thesis using reg ld lt r by (simp add: load_def)
  qed
  show "registry m' = Some r" if r: "res = Inr r"
  proof (cases rt)
    case (Inl e0)
    show ?thesis by (rule recover_props(3) [OF rc [OF Inl] r])
  next
    case (Inr r0)
    then have "r0 = r" "m' = m1" using reg ld lt r by (simp_all add: load_def)
    then show ?thesis using loadTry_Inr lt Inr by blast
  qed
  show "(\<exists>r. res = Inr r \<and> registryToJson (store m') r = j
           \<and> (reg_entries r = None) = (jprop j ''entries'' = Some JNull))
       \<and> files s' = files s \<and> dirs s' = dirs s"
    if f: "faultAt s 0 \<noteq> Fails" and v: "validDocument s ?path = Some j"
  proof -
    from f v obtain r0 m0 s0 where l0: "loadTry m s = (Inr r0, m0, s0)"
      and "registry m0 = Some r0"
      and k: "registryToJson (store m0) r0 = j"
        "(reg_entries r0 = None) = (jprop j ''entries'' = Some JNull)"
      by (rule loadTry_valid)
    have "rt = Inr r0" "m1 = m0" using lt l0 by simp_all
    then have "res = Inr r0" "m' = m0" "s' = s1"
      using reg ld lt by (simp_all add: load_def)
    then show ?thesis using k by (simp add: s1 files_called)
  qed
  have inv: "\<exists>e0. rt = Inl e0" if nv: "validDocument s ?path = None"
    using loadTry_invalid [OF nv] lt by simp
  show "(\<exists>r. res = Inr r \<and> registryToJson (store m') r = withLastUpdated now j)
       \<and> lookupFile s' ?path = Some (Json (withLastUpdated now j))"
    if q: "quiet s" and c: "canSave s ?path" and nv: "validDocument s ?path = None"
      and vb: "validDocument s ?bak = Some j"
  proof -
    obtain e0 where e0: "rt = Inl e0" using inv [OF nv] by blast
    have q1: "quiet s1" unfolding s1 using q by (rule quiet_called)
    have c1: "canSave s1 ?path" unfolding s1 using c by simp
    have v1: "validDocument s1 ?bak = Some j" unfolding s1 using vb by simp
    show ?thesis
      using recover_quiet(1) [OF rc [OF e0] q1 c1 v1] by blast
  qed
  show "res = Inr (createEmptyRegistry now)
       \<and> lookupFile s' ?path
           = Some (Json (JObj [(''version'', JStr ''1.0''), (''entries'', JObj []),
                               (''lastUpdated'', JStr now)]))"
    if q: "quiet s" and c: "canSave s ?path" and nv: "validDocument s ?path = None"
      and nb: "validDocument s ?bak = None"
  proof -
    obtain e0 where e0: "rt = Inl e0" using inv [OF nv] by blast
    have q1: "quiet s1" unfolding s1 using q by (rule quiet_called)
    have c1: "canSave s1 ?path" unfolding s1 using c by simp
    have v1: "validDocument s1 ?bak = None" unfolding s1 using nb by simp
    show ?thesis
      by (rule recover_quiet(2) [OF rc [OF e0] q1 c1 v1])
  qed
qed

lemma load_Inr_loaded:
  assumes "load now m s = (Inr r, m1, s1)"
  shows "registry m1 = Some r"
proof (cases "registry m")
  case (Some r0)
  then show ?thesis using assms by (simp add: load_def)
next
  case None
  show ?thesis by (rule load_outcome(2) [OF None assms refl])
qed

subsection \<open>What load returns passes the validation\<close>







subsection \<open>The claim\<close>




text \<open>
  No call needs to be disturbed for that: when the cache directory is a regular file,
  both reads fail, the \<open>mkdir\<close> of \<open>save\<close> fails, and \<open>load\<close> raises its error.
\<close>

lemma load_raises_without_fault:
  "fst (load ''2024-01-02''
          \<lparr>registryPath = ''/c/registry.json'', registry = None, store = (\<lambda>a. JNull), nextAddr = 0\<rparr>
          \<lparr>files = [(''/c'', Text ''not a directory'')], dirs = [], faults = [], trace = []\<rparr>)
   = Inl IOError"
  by code_simp

text \<open>
  A failing save of the restored backup is swallowed: \<open>load\<close> goes on to the empty
  registry, and returns it when the second save works.
\<close>

lemma load_backup_save_fails:
  "fst (load ''2024-01-02''
          \<lparr>registryPath = ''/c/registry.json'', registry = None, store = (\<lambda>a. JNull), nextAddr = 0\<rparr>
          \<lparr>files = [(''/c/registry.json.backup'',
                     Json (JObj [(''version'', JStr ''1.0''),
                                 (''entries'', JObj [(''rg'', JObj [(''repo'', JStr ''B/ripgrep'')])]),
                                 (''lastUpdated'', JStr ''2024-01-01'')]))],
             dirs = [''/c''], faults = [Works, Works, Fails], trace = []\<rparr>)
   = Inr (createEmptyRegistry ''2024-01-02'')"
  by code_simp

text \<open>
  The validation accepts \<open>entries: null\<close>, since \<open>typeof null\<close> is \<open>'object'\<close>.
  \<open>load\<close> returns such a document as the registry, and \<open>addEntry\<close> and
  \<open>removeEntry\<close> raise a TypeError on it.
\<close>

lemma load_null_entries:
  "(case load ''t1''
          \<lparr>registryPath = ''/c/registry.json'', registry = None, store = (\<lambda>a. JNull), nextAddr = 0\<rparr>
          \<lparr>files = [(''/c/registry.json'',
                     Json (JObj [(''version'', JStr ''1.0''), (''entries'', JNull),
                                 (''lastUpdated'', JStr ''t0'')]))],
             dirs = [''/c''], faults = [], trace = []\<rparr> of
      (res, m', s') \<Rightarrow>
        (map_option reg_entries (registry m'),
         fst (addEntry ''rg'' ''BurntSushi/ripgrep'' ''14.1.1'' \<lparr>os = ''linux'', arch = ''x86_64''\<rparr> ''t2'' m' s'),
         fst (removeEntry ''rg'' ''t2'' m' s')))
   = (Some None, Inl TypeError, Inl TypeError)"
  by code_simp
section \<open>RegistryManager.removeEntry\<close>

text \<open>
  C4 fails on a registry that has been reloaded from disk. \<open>rg\<close> is installed from
  \<open>BurntSushi/ripgrep\<close>, which stores one entry object under the keys \<open>rg\<close> and
  \<open>ripgrep\<close> and saves. The registry in memory is dropped, so that the next call
  reads \<open>registry.json\<close> again, where \<open>JSON.parse\<close> makes an object of its own for
  each key. \<open>removeEntry('rg')\<close> then returns true and deletes \<open>rg\<close>, but the test
  \<open>registry.entries[repoName] === entry\<close> compares two different objects with the same
  content and fails: the alias \<open>ripgrep\<close>, which still describes the removed binary
  \<open>rg\<close>, stays in memory and in the \<open>registry.json\<close> that is saved.
\<close>

theorem removeEntry_after_reload_keeps_alias:
  "(case addEntry ''rg'' ''BurntSushi/ripgrep'' ''14.1.1'' \<lparr>os = ''linux'', arch = ''x86_64''\<rparr> ''t1''
            \<lparr>registryPath = ''/c/registry.json'', registry = None, store = (\<lambda>a. JNull), nextAddr = 0\<rparr>
            \<lparr>files = [], dirs = [], faults = [], trace = []\<rparr> of
      (r1, m1, s1) \<Rightarrow>
        (case removeEntry ''rg'' ''t2'' (clearCache m1) s1 of
           (r2, m2, s2) \<Rightarrow>
             (r1, lookupFile s1 ''/c/registry.json'', r2,
              entryAddress m2 ''rg'', map_option (store m2) (entryAddress m2 ''ripgrep''),
              lookupFile s2 ''/c/registry.json'')))
   = (Inr (),
      Some (Json (JObj
        [(''version'', JStr ''1.0''),
         (''entries'', JObj
            [(''rg'', JObj [(''repo'', JStr ''BurntSushi/ripgrep''), (''binaryName'', JStr ''rg''),
                           (''version'', JStr ''14.1.1''), (''installDate'', JStr ''t1''),
                           (''lastUsed'', JStr ''t1''),
                           (''platform'', JObj [(''os'', JStr ''linux''), (''arch'', JStr ''x86_64'')])]),
             (''ripgrep'', JObj [(''repo'', JStr ''BurntSushi/ripgrep''), (''binaryName'', JStr ''rg''),
                           (''version'', JStr ''14.1.1''), (''installDate'', JStr ''t1''),
                           (''lastUsed'', JStr ''t1''),
                           (''platform'', JObj [(''os'', JStr ''linux''), (''arch'', JStr ''x86_64'')])])]),
         (''lastUpdated'', JStr ''t1'')])),
      Inr True,
      None,
      Some (JObj [(''repo'', JStr ''BurntSushi/ripgrep''), (''binaryName'', JStr ''rg''),
                  (''version'', JStr ''14.1.1''), (''installDate'', JStr ''t1''),
                  (''lastUsed'', JStr ''t1''),
                  (''platform'', JObj [(''os'', JStr ''linux''), (''arch'', JStr ''x86_64'')])]),
      Some (Json (JObj
        [(''version'', JStr ''1.0''),
         (''entries'', JObj
            [(''ripgrep'', JObj [(''repo'', JStr ''BurntSushi/ripgrep''), (''binaryName'', JStr ''rg''),
                           (''version'', JStr ''14.1.1''), (''installDate'', JStr ''t1''),
                           (''lastUsed'', JStr ''t1''),
                           (''platform'', JObj [(''os'', JStr ''linux''), (''arch'', JStr ''x86_64'')])])]),
         (''lastUpdated'', JStr ''t2'')])))"
  by code_simp

text \<open>
  Without the reload the two keys hold the same object, and \<open>removeEntry('rg')\<close>
  deletes both: the saved registry has no entries.
\<close>

lemma removeEntry_same_session_removes_alias:
  "(case addEntry ''rg'' ''BurntSushi/ripgrep'' ''14.1.1'' \<lparr>os = ''linux'', arch = ''x86_64''\<rparr> ''t1''
            \<lparr>registryPath = ''/c/registry.json'', registry = None, store = (\<lambda>a. JNull), nextAddr = 0\<rparr>
            \<lparr>files = [], dirs = [], faults = [], trace = []\<rparr> of
      (r1, m1, s1) \<Rightarrow>
        (case removeEntry ''rg'' ''t2'' m1 s1 of
           (r2, m2, s2) \<Rightarrow>
             (r1, entryAddress m1 ''rg'', entryAddress m1 ''ripgrep'', r2,
              entryAddress m2 ''rg'', entryAddress m2 ''ripgrep'',
              lookupFile s2 ''/c/registry.json'')))
   = (Inr (), Some 0, Some 0, Inr True, None, None,
      Some (Json (JObj [(''version'', JStr ''1.0''), (''entries'', JObj []),
                        (''lastUpdated'', JStr ''t2'')])))"
  by code_simp

text \<open>
  \<open>rg\<close> is installed from \<open>BurntSushi/ripgrep\<close>, then \<open>rip\<close> from
  \<open>other/ripgrep\<close>, which points the alias \<open>ripgrep\<close> at the new entry. Removing
  \<open>rg\<close> deletes \<open>rg\<close> and keeps the alias with the entry of \<open>rip\<close>.
\<close>

lemma removeEntry_keeps_reassigned_alias:
  "(case addEntry ''rg'' ''BurntSushi/ripgrep'' ''14.1.1'' \<lparr>os = ''linux'', arch = ''x86_64''\<rparr> ''t1''
            \<lparr>registryPath = ''/c/registry.json'', registry = None, store = (\<lambda>a. JNull), nextAddr = 0\<rparr>
            \<lparr>files = [], dirs = [], faults = [], trace = []\<rparr> of
      (r1, m1, s1) \<Rightarrow>
        (case addEntry ''rip'' ''other/ripgrep'' ''0.1.0'' \<lparr>os = ''linux'', arch = ''x86_64''\<rparr> ''t2'' m1 s1 of
           (r2, m2, s2) \<Rightarrow>
             (case removeEntry ''rg'' ''t3'' m2 s2 of
                (r3, m3, s3) \<Rightarrow>
                  (r3, entryAddress m2 ''rg'', entryAddress m2 ''ripgrep'', entryAddress m2 ''rip'',
                   entryAddress m3 ''rg'', entryAddress m3 ''ripgrep'', entryAddress m3 ''rip'',
                   map_option (\<lambda>a. jprop (store m3 a) ''binaryName'') (entryAddress m3 ''ripgrep'')))))
   = (Inr True, Some 0, Some 1, Some 1, None, Some 1, Some 1, Some (Some (JStr ''rip'')))"
  by code_simp

text \<open>
  The key \<open>__proto__\<close>. Installing a binary of that name adds no key: the assignment
  replaces the prototype of the entries object by the entry, and only the alias is
  stored. \<open>removeEntry('__proto__')\<close> reads the prototype back, finds the alias to be
  the same object and deletes it.
\<close>

lemma removeEntry_proto_name:
  "(case addEntry ''__proto__'' ''BurntSushi/ripgrep'' ''14.1.1'' \<lparr>os = ''linux'', arch = ''x86_64''\<rparr> ''t1''
            \<lparr>registryPath = ''/c/registry.json'', registry = None, store = (\<lambda>a. JNull), nextAddr = 0\<rparr>
            \<lparr>files = [], dirs = [], faults = [], trace = []\<rparr> of
      (r1, m1, s1) \<Rightarrow>
        (case removeEntry ''__proto__'' ''t2'' m1 s1 of
           (r2, m2, s2) \<Rightarrow>
             (r1, entryAddress m1 ''__proto__'', entryAddress m1 ''ripgrep'',
              map_option reg_proto (registry m1), r2, entryAddress m2 ''ripgrep'')))
   = (Inr (), None, Some 0, Some (Some 0), Inr True, None)"
  by code_simp

section \<open>RegistryManager.removeEntry on a name that is absent\<close>

text \<open>
  A name that the \<open>entries\<close> object has neither as an own nor as an inherited property:
  \<open>removeEntry\<close> returns false and changes nothing, in memory or on disk.
\<close>

lemma removeEntry_missing_name:
  assumes "registry m = Some r" "reg_entries r = Some ps"
    "getProperty (store m) ps (reg_proto r) bn = Missing"
  shows "removeEntry bn now m s = (Inr False, m, s)"
  using assms by (simp add: removeEntry_def load_loaded)

text \<open>
  C10 fails on the names that every object inherits from \<open>Object.prototype\<close>. In an
  empty, loaded registry \<open>constructor\<close> is not a key, but \<open>registry.entries['constructor']\<close>
  is the inherited function, which passes the test \<open>!entry\<close>; \<open>entry.repo\<close> is
  \<open>undefined\<close> and \<open>removeEntry\<close> raises a TypeError instead of returning false.
  Nothing is saved or changed.
\<close>

theorem removeEntry_inherited_name_raises:
  "entryAddress
      \<lparr>registryPath = ''/c/registry.json'',
         registry = Some \<lparr>reg_members = [(''version'', JStr ''1.0''), (''entries'', JObj []),
                                          (''lastUpdated'', JStr ''t0'')],
                          reg_entries = Some [], reg_proto = None\<rparr>,
         store = (\<lambda>a. JNull), nextAddr = 0\<rparr> ''constructor'' = None
   \<and> fst (removeEntry ''constructor'' ''t1''
          \<lparr>registryPath = ''/c/registry.json'',
             registry = Some \<lparr>reg_members = [(''version'', JStr ''1.0''), (''entries'', JObj []),
                                              (''lastUpdated'', JStr ''t0'')],
                              reg_entries = Some [], reg_proto = None\<rparr>,
             store = (\<lambda>a. JNull), nextAddr = 0\<rparr>
          \<lparr>files = [(''/c/registry.json'',
                     Json (JObj [(''version'', JStr ''1.0''), (''entries'', JObj []),
                                 (''lastUpdated'', JStr ''t0'')]))],
             dirs = [''/c''], faults = [], trace = []\<rparr>)
     = Inl TypeError
   \<and> snd (snd (removeEntry ''constructor'' ''t1''
          \<lparr>registryPath = ''/c/registry.json'',
             registry = Some \<lparr>reg_members = [(''version'', JStr ''1.0''), (''entries'', JObj []),
                                              (''lastUpdated'', JStr ''t0'')],
                              reg_entries = Some [], reg_proto = None\<rparr>,
             store = (\<lambda>a. JNull), nextAddr = 0\<rparr>
          \<lparr>files = [(''/c/registry.json'',
                     Json (JObj [(''version'', JStr ''1.0''), (''entries'', JObj []),
                                 (''lastUpdated'', JStr ''t0'')]))],
             dirs = [''/c''], faults = [], trace = []\<rparr>))
     = \<lparr>files = [(''/c/registry.json'',
                     Json (JObj [(''version'', JStr ''1.0''), (''entries'', JObj []),
                                 (''lastUpdated'', JStr ''t0'')]))],
             dirs = [''/c''], faults = [], trace = []\<rparr>"
  by code_simp

end
